theory Spec2Isabelle
  imports Main "HOL-Library.Sublist" "HOL-Library.AList"
begin

section \<open>JSON values and the serialiser used by the SSE encoder\<close>

text \<open>
  Python values that reach \<^verbatim>\<open>json.dumps\<close> in \<^verbatim>\<open>app/main.py\<close>: \<^verbatim>\<open>None\<close>, booleans,
  integers, strings, lists and dictionaries with string keys. A dictionary is an
  association list, since \<^verbatim>\<open>json.dumps\<close> writes the members in insertion order.
  Characters are the code points 0..255; floats are left out.
\<close>

datatype json =
    JNull
  | JBool bool
  | JInt int
  | JStr string
  | JArr "json list"
  | JObj "(string \<times> json) list"

abbreviation NL :: char where "NL \<equiv> CHR 0x0A"
abbreviation DQ :: char where "DQ \<equiv> CHR 0x22"
abbreviation BS :: char where "BS \<equiv> CHR 0x5C"

definition hex_digit :: "nat \<Rightarrow> char" where
  "hex_digit n = ''0123456789abcdef'' ! n"

text \<open>
  One character of a string under \<^verbatim>\<open>ensure_ascii=True\<close>: the backslash and the double
  quote are escaped, the characters from space to tilde are kept, the five short escapes
  are used, and every other code point is written \<^verbatim>\<open>\u00xy\<close>.
\<close>

definition escape_char :: "char \<Rightarrow> string" where
  "escape_char c =
     (if c = BS then [BS, BS]
      else if c = DQ then [BS, DQ]
      else if 32 \<le> (of_char c :: nat) \<and> (of_char c :: nat) \<le> 126 then [c]
      else if c = CHR 0x08 then [BS, CHR ''b'']
      else if c = CHR 0x0C then [BS, CHR ''f'']
      else if c = NL then [BS, CHR ''n'']
      else if c = CHR 0x0D then [BS, CHR ''r'']
      else if c = CHR 0x09 then [BS, CHR ''t'']
      else [BS, CHR ''u'', CHR ''0'', CHR ''0'',
            hex_digit ((of_char c :: nat) div 16), hex_digit ((of_char c :: nat) mod 16)])"

definition dumps_str :: "string \<Rightarrow> string" where
  "dumps_str s = [DQ] @ concat (map escape_char s) @ [DQ]"

fun digits :: "nat \<Rightarrow> string" where
  "digits n = (if n < 10 then [''0123456789'' ! n]
               else digits (n div 10) @ [''0123456789'' ! (n mod 10)])"

declare digits.simps [simp del]

definition dumps_int :: "int \<Rightarrow> string" where
  "dumps_int i = (if i < 0 then CHR ''-'' # digits (nat (- i)) else digits (nat i))"

text \<open>
  \<^verbatim>\<open>json.dumps(content)\<close> with the default arguments: item separator \<^verbatim>\<open>", "\<close>, key
  separator \<^verbatim>\<open>": "\<close>, no indentation.
\<close>

fun json_dumps :: "json \<Rightarrow> string"
  and dumps_items :: "json list \<Rightarrow> string"
  and dumps_members :: "(string \<times> json) list \<Rightarrow> string" where
  "json_dumps JNull = ''null''"
| "json_dumps (JBool b) = (if b then ''true'' else ''false'')"
| "json_dumps (JInt i) = dumps_int i"
| "json_dumps (JStr s) = dumps_str s"
| "json_dumps (JArr xs) = ''['' @ dumps_items xs @ '']''"
| "json_dumps (JObj kvs) = ''{'' @ dumps_members kvs @ ''}''"
| "dumps_items [] = []"
| "dumps_items [x] = json_dumps x"
| "dumps_items (x # y # ys) = json_dumps x @ '', '' @ dumps_items (y # ys)"
| "dumps_members [] = []"
| "dumps_members [(k, v)] = dumps_str k @ '': '' @ json_dumps v"
| "dumps_members ((k, v) # kv # kvs) =
     dumps_str k @ '': '' @ json_dumps v @ '', '' @ dumps_members (kv # kvs)"

section \<open>Reading JSON\<close>












section \<open>The SSE frame encoder\<close>

text \<open>An \<^verbatim>\<open>SSEMessage\<close>: a dictionary with the keys \<^verbatim>\<open>type\<close> and \<^verbatim>\<open>content\<close>.\<close>

record SSEMessage =
  sse_type :: string
  sse_content :: json

text \<open>\<^verbatim>\<open>create_sse_data\<close> (\<^verbatim>\<open>app/main.py\<close>, lines 324-339).\<close>

definition create_sse_data :: "SSEMessage \<Rightarrow> string" where
  "create_sse_data message =
     (let event_type = sse_type message;
          content = sse_content message;
          result = ''event: '' @ event_type @ [NL];
          result = (if content \<noteq> JNull then result @ ''data: '' @ json_dumps content @ [NL]
                    else result)
      in result @ [NL])"



section \<open>Exceptions\<close>

text \<open>
  The exceptions that the modelled code raises or receives, each with the text that
  \<^verbatim>\<open>str(e)\<close> gives. \<open>AgentFailure\<close> is any exception raised by the agent runtime while
  it is driven. A cancellation (\<^verbatim>\<open>asyncio.CancelledError\<close>) is not an \<^verbatim>\<open>Exception\<close> and
  is kept apart, in \<open>source_end\<close> and \<open>agent_outcome\<close> below.
\<close>

datatype exn =
    KeyError string
  | IndexError string
  | TypeError string
  | AttributeError string
  | UnboundLocalError string
  | MessageConversionError string
  | AgentFailure string

fun str_exn :: "exn \<Rightarrow> string" where
  "str_exn (KeyError k) = [CHR 0x27] @ k @ [CHR 0x27]"
| "str_exn (IndexError m) = m"
| "str_exn (TypeError m) = m"
| "str_exn (AttributeError m) = m"
| "str_exn (UnboundLocalError m) = m"
| "str_exn (MessageConversionError m) = m"
| "str_exn (AgentFailure m) = m"

section \<open>Messages of the agent runtime\<close>

text \<open>
  Message content is \<^verbatim>\<open>str | list[str | dict]\<close>. Of a dictionary item only the keys
  \<^verbatim>\<open>type\<close> and \<^verbatim>\<open>text\<close> are read; \<open>None\<close> is a missing key, and the values are strings,
  as in the content blocks of the runtime.
\<close>

datatype content_item =
    ItemStr string
  | ItemDict (item_type: "string option") (item_text: "string option")

datatype content =
    ContentStr string
  | ContentList "content_item list"

text \<open>
  A tool call is a dictionary read at the keys \<^verbatim>\<open>name\<close>, \<^verbatim>\<open>args\<close> and \<^verbatim>\<open>id\<close>; \<open>None\<close>
  is a missing key. The identifier is \<^verbatim>\<open>str | None\<close>.
\<close>

datatype tool_call =
  ToolCall (tc_name: "json option") (tc_args: "json option") (tc_id: "string option option")

text \<open>
  The runtime's messages. \<open>OtherMessage\<close> is a message of any class other than the three
  matched by \<^verbatim>\<open>langchain_to_chat_message\<close>, with its class name.
\<close>

datatype BaseMessage =
    HumanMessage content
  | AIMessage content "tool_call list"
  | ToolMessage content string
  | OtherMessage string

record ChatMessage =
  cm_type :: string
  cm_content :: string
  cm_tool_calls :: "tool_call list"
  cm_tool_call_id :: "string option"
  cm_thread_id :: "string option"
  cm_run_id :: "string option"

text \<open>\<^verbatim>\<open>remove_tool_calls\<close> and \<^verbatim>\<open>convert_message_content_to_string\<close> (\<^verbatim>\<open>app/utils.py\<close>).\<close>

fun keep_items :: "content_item list \<Rightarrow> exn + content_item list" where
  "keep_items [] = Inr []"
| "keep_items (ItemStr s # items) =
     (case keep_items items of Inl e \<Rightarrow> Inl e | Inr r \<Rightarrow> Inr (ItemStr s # r))"
| "keep_items (ItemDict ty tx # items) =
     (case ty of
        None \<Rightarrow> Inl (KeyError ''type'')
      | Some t \<Rightarrow>
          (case keep_items items of
             Inl e \<Rightarrow> Inl e
           | Inr r \<Rightarrow> Inr (if t \<noteq> ''tool_use'' then ItemDict ty tx # r else r)))"

definition remove_tool_calls :: "content \<Rightarrow> exn + content" where
  "remove_tool_calls c =
     (case c of
        ContentStr s \<Rightarrow> Inr (ContentStr s)
      | ContentList items \<Rightarrow>
          (case keep_items items of Inl e \<Rightarrow> Inl e | Inr r \<Rightarrow> Inr (ContentList r)))"

fun item_texts :: "content_item list \<Rightarrow> string list" where
  "item_texts [] = []"
| "item_texts (ItemStr s # items) = s # item_texts items"
| "item_texts (ItemDict ty tx # items) =
     (if ty = Some ''text'' then (case tx of None \<Rightarrow> [] | Some t \<Rightarrow> t) # item_texts items
      else item_texts items)"

definition convert_message_content_to_string :: "content \<Rightarrow> string" where
  "convert_message_content_to_string c =
     (case c of ContentStr s \<Rightarrow> s | ContentList items \<Rightarrow> concat (item_texts items))"

text \<open>
  \<^verbatim>\<open>langchain_to_chat_message\<close> (\<^verbatim>\<open>app/utils.py\<close>). The response metadata of an AI message
  is copied and never read afterwards, and is left out.
\<close>

definition new_chat_message :: "string \<Rightarrow> string \<Rightarrow> ChatMessage" where
  "new_chat_message ty c =
     \<lparr>cm_type = ty, cm_content = c, cm_tool_calls = [], cm_tool_call_id = None,
      cm_thread_id = None, cm_run_id = None\<rparr>"

fun langchain_to_chat_message :: "BaseMessage \<Rightarrow> exn + ChatMessage" where
  "langchain_to_chat_message (HumanMessage c) =
     Inr (new_chat_message ''human'' (convert_message_content_to_string c))"
| "langchain_to_chat_message (AIMessage c tool_calls) =
     (let ai_message = new_chat_message ''ai'' (convert_message_content_to_string c)
      in Inr (if tool_calls \<noteq> [] then ai_message\<lparr>cm_tool_calls := tool_calls\<rparr>
              else ai_message))"
| "langchain_to_chat_message (ToolMessage c tool_call_id) =
     Inr ((new_chat_message ''tool'' (convert_message_content_to_string c))
            \<lparr>cm_tool_call_id := Some tool_call_id\<rparr>)"
| "langchain_to_chat_message (OtherMessage cls) =
     Inl (MessageConversionError (''Unsupported message type: '' @ cls))"

section \<open>The frames\<close>

definition stream_start_frame :: string where
  "stream_start_frame = create_sse_data \<lparr>sse_type = ''stream_start'', sse_content = JNull\<rparr>"

definition stream_token_frame :: "string \<Rightarrow> string" where
  "stream_token_frame token =
     create_sse_data \<lparr>sse_type = ''stream_token'', sse_content = JObj [(''token'', JStr token)]\<rparr>"

definition tool_execution_start_frame :: "json \<Rightarrow> json \<Rightarrow> string" where
  "tool_execution_start_frame name params =
     create_sse_data \<lparr>sse_type = ''tool_execution_start'',
                      sse_content = JObj [(''name'', name), (''params'', params)]\<rparr>"

definition tool_execution_complete_frame :: "json \<Rightarrow> json \<Rightarrow> string" where
  "tool_execution_complete_frame name params =
     create_sse_data \<lparr>sse_type = ''tool_execution_complete'',
                      sse_content = JObj [(''name'', name), (''params'', params)]\<rparr>"

definition error_frame :: "string \<Rightarrow> string" where
  "error_frame text = create_sse_data \<lparr>sse_type = ''error'', sse_content = JStr text\<rparr>"

definition stream_end_frame :: "string \<Rightarrow> string" where
  "stream_end_frame thread_id =
     create_sse_data \<lparr>sse_type = ''stream_end'',
                      sse_content = JObj [(''thread_id'', JStr thread_id)]\<rparr>"

section \<open>Generators\<close>

text \<open>
  A generator body that loops over a list: the values yielded, the state reached, and the
  exception that ended the loop, if one did.
\<close>

fun for_each ::
  "('s \<Rightarrow> 'a \<Rightarrow> 'y list \<times> 's \<times> exn option) \<Rightarrow> 's \<Rightarrow> 'a list \<Rightarrow> 'y list \<times> 's \<times> exn option"
where
  "for_each body s [] = ([], s, None)"
| "for_each body s (x # xs) =
     (case body s x of
        (ys, s', Some e) \<Rightarrow> (ys, s', Some e)
      | (ys, s', None) \<Rightarrow>
          (case for_each body s' xs of (zs, s'', r) \<Rightarrow> (ys @ zs, s'', r)))"

section \<open>The event translator: \<^verbatim>\<open>process_stream_updates\<close>\<close>

text \<open>
  The tool-call tracker \<^verbatim>\<open>tool_executions\<close> is a dictionary from the call identifier to
  the recorded name and parameters, kept in insertion order.
\<close>

type_synonym tracker = "(string option \<times> json \<times> json) list"

text \<open>
  The local state of one call of \<^verbatim>\<open>process_stream_updates\<close>. The variable
  \<^verbatim>\<open>chat_message\<close> is local to the whole function body: it is unbound (\<open>None\<close>) until the
  first message of the call has been translated, and keeps its last value afterwards. The
  two containers are the caller's objects, mutated in place.
\<close>

record updates_state =
  us_stream_started :: bool
  us_chat_message :: "ChatMessage option"
  us_tool_executions :: tracker
  us_completed_tools :: "json list"

type_synonym updates_yield = "string \<times> bool"

text \<open>
  An interrupt of the agent runtime is an object that carries the value given when the
  agent paused, in its attribute \<^verbatim>\<open>value\<close>; \<^verbatim>\<open>invoke\<close> reads it there (line 240). The
  object has no attribute \<^verbatim>\<open>content\<close>: reading \<^verbatim>\<open>interrupt.content\<close>, as
  \<^verbatim>\<open>process_stream_updates\<close> does, raises an \<^verbatim>\<open>AttributeError\<close>.
\<close>

datatype interrupt = Interrupt (interrupt_value: content)

definition interrupt_content :: "interrupt \<Rightarrow> exn + string" where
  "interrupt_content interrupt =
     Inl (AttributeError ([CHR 0x27] @ ''Interrupt'' @ [CHR 0x27] @ '' object has no attribute ''
            @ [CHR 0x27] @ ''content'' @ [CHR 0x27]))"

text \<open>
  One event of the \<^verbatim>\<open>updates\<close> channel is a dictionary from node names to updates. An
  entry under the key \<^verbatim>\<open>__interrupt__\<close> holds interrupts; any other entry is read at
  \<^verbatim>\<open>.get("messages", [])\<close>.
\<close>

datatype node_update =
    Interrupts "interrupt list"
  | NodeMessages "BaseMessage list"

text \<open>
  Lines 370-379: one interrupt. The condition of line 371 reads \<^verbatim>\<open>interrupt.content\<close>
  only when the stream has not started; the token of line 376 reads it in every case.
  Both reads are outside the \<^verbatim>\<open>try\<close> of the message loop.
\<close>

definition interrupt_step :: "updates_state \<Rightarrow> interrupt \<Rightarrow> updates_yield list \<times> updates_state \<times> exn option" where
  "interrupt_step s interrupt =
     (if \<not> us_stream_started s then
        (case interrupt_content interrupt of
           Inl e \<Rightarrow> ([], s, Some e)
         | Inr text \<Rightarrow>
             if text \<noteq> [] then
               ([(stream_start_frame, True), (stream_token_frame text, True)],
                s\<lparr>us_stream_started := True\<rparr>, None)
             else ([(stream_token_frame text, us_stream_started s)], s, None))
      else
        (case interrupt_content interrupt of
           Inl e \<Rightarrow> ([], s, Some e)
         | Inr text \<Rightarrow> ([(stream_token_frame text, us_stream_started s)], s, None)))"

text \<open>
  Lines 396-414: one tool call. The right-hand side of the assignment is evaluated first
  (\<^verbatim>\<open>name\<close>, then \<^verbatim>\<open>args\<close>), then the key \<^verbatim>\<open>id\<close>; a missing key raises before the
  tracker is changed.
\<close>

definition tool_call_step :: "updates_state \<Rightarrow> tool_call \<Rightarrow> updates_yield list \<times> updates_state \<times> exn option" where
  "tool_call_step s tool_call =
     (case tc_name tool_call of
        None \<Rightarrow> ([], s, Some (KeyError ''name''))
      | Some name \<Rightarrow>
          (case tc_args tool_call of
             None \<Rightarrow> ([], s, Some (KeyError ''args''))
           | Some args \<Rightarrow>
               (case tc_id tool_call of
                  None \<Rightarrow> ([], s, Some (KeyError ''id''))
                | Some call_id \<Rightarrow>
                    ([(tool_execution_start_frame name args, us_stream_started s)],
                     s\<lparr>us_tool_executions :=
                          AList.update call_id (name, args) (us_tool_executions s)\<rparr>,
                     None))))"

text \<open>Lines 386-445: the body of the \<^verbatim>\<open>try\<close> for one message.\<close>

definition try_message ::
  "string \<Rightarrow> string \<Rightarrow> string \<Rightarrow> updates_state \<Rightarrow> BaseMessage \<Rightarrow>
     updates_yield list \<times> updates_state \<times> exn option" where
  "try_message run_id thread_id user_input s message =
     (case langchain_to_chat_message message of
        Inl e \<Rightarrow> ([], s, Some e)
      | Inr converted \<Rightarrow>
          (let chat_message = converted\<lparr>cm_run_id := Some run_id, cm_thread_id := Some thread_id\<rparr>;
               s = s\<lparr>us_chat_message := Some chat_message\<rparr>
           in if cm_type chat_message = ''human'' \<and> cm_content chat_message = user_input then
                ([], s, None)
              else if cm_tool_calls chat_message \<noteq> [] then
                for_each tool_call_step s (cm_tool_calls chat_message)
              else if cm_type chat_message = ''tool'' then
                (let tool_id = cm_tool_call_id chat_message
                 in case map_of (us_tool_executions s) tool_id of
                      Some tool_info \<Rightarrow>
                        ([(tool_execution_complete_frame (fst tool_info) (snd tool_info),
                           us_stream_started s)],
                         s\<lparr>us_tool_executions := AList.delete tool_id (us_tool_executions s),
                           us_completed_tools := us_completed_tools s @ [fst tool_info]\<rparr>,
                         None)
                    | None \<Rightarrow> ([], s, None))
              else if cm_content chat_message \<noteq> [] then
                (if \<not> us_stream_started s then
                   ([(stream_start_frame, True),
                     (stream_token_frame (cm_content chat_message), True)],
                    s\<lparr>us_stream_started := True\<rparr>, None)
                 else ([(stream_token_frame (cm_content chat_message), us_stream_started s)],
                       s, None))
              else ([], s, None)))"

text \<open>
  Lines 446-460: the \<^verbatim>\<open>except Exception\<close> handler. It reads the local variable
  \<^verbatim>\<open>chat_message\<close>; when that variable is unbound the read raises, after the
  \<^verbatim>\<open>stream_start\<close> of the handler has been yielded.
\<close>

definition unbound_chat_message :: exn where
  "unbound_chat_message = UnboundLocalError
     (''cannot access local variable '' @ [CHR 0x27] @ ''chat_message'' @ [CHR 0x27] @
      '' where it is not associated with a value'')"

definition except_message :: "updates_state \<Rightarrow> updates_yield list \<times> updates_state \<times> exn option" where
  "except_message s =
     (let opened = (if \<not> us_stream_started s then [(stream_start_frame, True)] else []);
          s = (if \<not> us_stream_started s then s\<lparr>us_stream_started := True\<rparr> else s)
      in case us_chat_message s of
           None \<Rightarrow> (opened, s, Some unbound_chat_message)
         | Some chat_message \<Rightarrow>
             (let s = (if map_of (us_tool_executions s) (cm_tool_call_id chat_message) \<noteq> None
                       then s\<lparr>us_tool_executions :=
                              AList.delete (cm_tool_call_id chat_message) (us_tool_executions s)\<rparr>
                       else s)
              in (opened @ [(error_frame ''Unexpected error'', us_stream_started s)], s, None)))"

definition message_step ::
  "string \<Rightarrow> string \<Rightarrow> string \<Rightarrow> updates_state \<Rightarrow> BaseMessage \<Rightarrow>
     updates_yield list \<times> updates_state \<times> exn option" where
  "message_step run_id thread_id user_input s message =
     (case try_message run_id thread_id user_input s message of
        (ys, s', Some e) \<Rightarrow>
          (case except_message s' of (zs, s'', r) \<Rightarrow> (ys @ zs, s'', r))
      | (ys, s', None) \<Rightarrow> (ys, s', None))"

text \<open>Lines 368-383: one entry of the event.\<close>

definition node_step ::
  "string \<Rightarrow> string \<Rightarrow> string \<Rightarrow> updates_state \<Rightarrow> node_update \<Rightarrow>
     updates_yield list \<times> updates_state \<times> exn option" where
  "node_step run_id thread_id user_input s updates =
     (case updates of
        Interrupts interrupts \<Rightarrow> for_each interrupt_step s interrupts
      | NodeMessages update_messages \<Rightarrow>
          for_each (message_step run_id thread_id user_input) s update_messages)"

definition process_stream_updates ::
  "node_update list \<Rightarrow> string \<Rightarrow> string \<Rightarrow> string \<Rightarrow> tracker \<Rightarrow> bool \<Rightarrow> json list \<Rightarrow>
     updates_yield list \<times> updates_state \<times> exn option" where
  "process_stream_updates event run_id thread_id user_input tool_executions stream_started
       completed_tools =
     for_each (node_step run_id thread_id user_input)
       \<lparr>us_stream_started = stream_started, us_chat_message = None,
        us_tool_executions = tool_executions, us_completed_tools = completed_tools\<rparr>
       event"

section \<open>The stream driver: \<^verbatim>\<open>message_generator\<close>\<close>

text \<open>
  What \<^verbatim>\<open>agent.astream\<close> delivers: a value that is not a pair, or a pair of a stream mode
  and an event. In the \<^verbatim>\<open>messages\<close> mode the event is a message, which is an
  \<^verbatim>\<open>AIMessageChunk\<close> with its content or some other message, and the tags of its
  metadata. In the \<^verbatim>\<open>custom\<close> mode the event is an exception or a dictionary with an
  event type and data.
\<close>

datatype chunk = AIMessageChunk content | NotAChunk

datatype custom_event = CustomException string | CustomData string json

datatype stream_event =
    NotATuple
  | UpdatesEvent "node_update list"
  | MessagesEvent chunk "string list"
  | CustomEvent custom_event
  | OtherMode

text \<open>How the event source ends: it is exhausted, it raises, or the task is cancelled.\<close>

datatype source_end = Exhausted | Raises exn | Cancelled

record generator_state =
  stream_started :: bool
  tool_executions :: tracker
  completed_tools :: "json list"
  complete_message :: string

text \<open>
  Lines 527-544: the driver reads what the translator yields. A frame is passed on when
  its text contains one of the two tool event lines; otherwise the flag is raised when
  the yielded flag is set and the driver's own is not.
\<close>

definition consume_yield :: "generator_state \<Rightarrow> updates_yield \<Rightarrow> string list \<times> generator_state \<times> exn option" where
  "consume_yield g y =
     (let message = fst y; new_stream_started = snd y
      in if sublist ''event: tool_execution_start'' message
            \<or> sublist ''event: tool_execution_complete'' message then ([message], g, None)
         else if new_stream_started \<and> \<not> stream_started g then
           ([], g\<lparr>stream_started := new_stream_started\<rparr>, None)
         else ([], g, None))"

definition updates_branch ::
  "string \<Rightarrow> string \<Rightarrow> string \<Rightarrow> generator_state \<Rightarrow> node_update list \<Rightarrow>
     string list \<times> generator_state \<times> exn option" where
  "updates_branch run_id thread_id user_input g event =
     (case process_stream_updates event run_id thread_id user_input (tool_executions g)
             (stream_started g) (completed_tools g) of
        (ys, s, raised) \<Rightarrow>
          (case for_each consume_yield g ys of
             (frames, g', _) \<Rightarrow>
               (frames,
                g'\<lparr>tool_executions := us_tool_executions s,
                   completed_tools := us_completed_tools s\<rparr>,
                raised)))"

text \<open>
  Lines 546-564: the \<^verbatim>\<open>messages\<close> mode. Appending a list to the string
  \<^verbatim>\<open>complete_message\<close> raises a \<^verbatim>\<open>TypeError\<close>, after the stream has been opened.
\<close>

definition messages_branch ::
  "generator_state \<Rightarrow> chunk \<Rightarrow> string list \<Rightarrow> string list \<times> generator_state \<times> exn option" where
  "messages_branch g msg tags =
     (if ''skip_stream'' \<in> set tags then ([], g, None)
      else case msg of
        NotAChunk \<Rightarrow> ([], g, None)
      | AIMessageChunk msg_content \<Rightarrow>
          (case remove_tool_calls msg_content of
             Inl e \<Rightarrow> ([], g, Some e)
           | Inr content \<Rightarrow>
               if content \<noteq> ContentStr [] \<and> content \<noteq> ContentList [] then
                 (let opened = (if \<not> stream_started g then [stream_start_frame] else []);
                      g = (if \<not> stream_started g then g\<lparr>stream_started := True\<rparr> else g)
                  in case content of
                       ContentList _ \<Rightarrow>
                         (opened, g,
                          Some (TypeError (''can only concatenate str (not '' @ [DQ] @ ''list''
                                           @ [DQ] @ '') to str'')))
                     | ContentStr text \<Rightarrow>
                         (opened @ [stream_token_frame (convert_message_content_to_string content)],
                          g\<lparr>complete_message := complete_message g @ text\<rparr>, None))
               else ([], g, None)))"

text \<open>Lines 566-575: the \<^verbatim>\<open>custom\<close> mode.\<close>

definition custom_branch :: "generator_state \<Rightarrow> custom_event \<Rightarrow> string list \<times> generator_state \<times> exn option" where
  "custom_branch g event =
     (case event of
        CustomException text \<Rightarrow>
          (let opened = (if \<not> stream_started g then [stream_start_frame] else []);
               g = (if \<not> stream_started g then g\<lparr>stream_started := True\<rparr> else g)
           in (opened @ [error_frame text], g, None))
      | CustomData event_type data \<Rightarrow>
          ([create_sse_data \<lparr>sse_type = event_type, sse_content = data\<rparr>], g, None))"

definition stream_step ::
  "string \<Rightarrow> string \<Rightarrow> string \<Rightarrow> generator_state \<Rightarrow> stream_event \<Rightarrow>
     string list \<times> generator_state \<times> exn option" where
  "stream_step run_id thread_id user_input g stream_event =
     (case stream_event of
        NotATuple \<Rightarrow> ([], g, None)
      | UpdatesEvent event \<Rightarrow> updates_branch run_id thread_id user_input g event
      | MessagesEvent msg tags \<Rightarrow> messages_branch g msg tags
      | CustomEvent event \<Rightarrow> custom_branch g event
      | OtherMode \<Rightarrow> ([], g, None))"

text \<open>
  Lines 577-586: the \<^verbatim>\<open>except Exception\<close> clause and the \<^verbatim>\<open>finally\<close> clause. The
  \<^verbatim>\<open>except\<close> clause yields \<^verbatim>\<open>stream_start\<close> without assigning \<^verbatim>\<open>stream_started\<close>.
\<close>

definition except_frames :: "generator_state \<Rightarrow> exn \<Rightarrow> string list" where
  "except_frames g e =
     (if \<not> stream_started g then [stream_start_frame] else []) @ [error_frame (str_exn e)]"

definition finally_frames :: "generator_state \<Rightarrow> string \<Rightarrow> string list" where
  "finally_frames g thread_id = (if stream_started g then [stream_end_frame thread_id] else [])"

text \<open>
  \<^verbatim>\<open>message_generator\<close>, lines 504-586, for a request with the message \<open>user_input\<close>,
  the identifiers made by \<^verbatim>\<open>_handle_input\<close>, and the events that the agent's stream
  delivers followed by the way it ends. The result is the sequence of frames yielded.
\<close>

definition initial_state :: generator_state where
  "initial_state =
     \<lparr>stream_started = False, tool_executions = [], completed_tools = [],
      complete_message = []\<rparr>"

definition message_generator ::
  "string \<Rightarrow> string \<Rightarrow> string \<Rightarrow> stream_event list \<Rightarrow> source_end \<Rightarrow> string list" where
  "message_generator user_input thread_id run_id events ending =
     (case for_each (stream_step run_id thread_id user_input) initial_state events of
        (frames, g, Some e) \<Rightarrow> frames @ except_frames g e @ finally_frames g thread_id
      | (frames, g, None) \<Rightarrow>
          (case ending of
             Exhausted \<Rightarrow> frames @ finally_frames g thread_id
           | Raises e \<Rightarrow> frames @ except_frames g e @ finally_frames g thread_id
           | Cancelled \<Rightarrow> frames @ finally_frames g thread_id))"

section \<open>The single-shot handler: \<^verbatim>\<open>invoke\<close>\<close>

text \<open>
  \<^verbatim>\<open>agents/agents.py\<close>: the registry holds the one agent \<^verbatim>\<open>Agent-AI\<close>; looking up another
  identifier raises a \<^verbatim>\<open>KeyError\<close>.
\<close>

definition agents :: "string list" where
  "agents = [''Agent-AI'']"

definition get_agent :: "string \<Rightarrow> exn + string" where
  "get_agent agent_id = (if agent_id \<in> set agents then Inr agent_id else Inl (KeyError agent_id))"

text \<open>
  What \<^verbatim>\<open>agent.ainvoke\<close> does: it returns a list of pairs of a response type and a
  response, it raises an exception, or the awaiting task is cancelled. A response of type
  \<^verbatim>\<open>values\<close> holds messages; one of type \<^verbatim>\<open>updates\<close> holds its interrupts under
  \<^verbatim>\<open>__interrupt__\<close>, or has no such key (\<open>None\<close>).
\<close>

datatype response =
    ValuesResponse "BaseMessage list"
  | UpdatesResponse "interrupt list option"
  | OtherResponse string

datatype agent_outcome = AgentReturns "response list" | AgentRaises exn | AgentCancelled

text \<open>\<^verbatim>\<open>AgentError\<close> and its subclass \<^verbatim>\<open>AgentExecutionError\<close>, with message and status code.\<close>

datatype agent_error = AgentError string nat | AgentExecutionError string nat

record AgentResponse =
  resp_content :: string
  resp_thread_id :: string
  resp_run_id :: string

text \<open>
  Lines 227-246: the body of the inner \<^verbatim>\<open>try\<close> once the agent has returned. \<open>Inl (Inl e)\<close>
  is an \<^verbatim>\<open>AgentError\<close>, \<open>Inl (Inr e)\<close> any other exception.
\<close>

definition read_response :: "response list \<Rightarrow> (agent_error + exn) + string" where
  "read_response response_events =
     (if response_events = [] then
        Inl (Inl (AgentExecutionError ''No response received from agent'' 400))
      else case last response_events of
        ValuesResponse messages \<Rightarrow>
          (if messages = [] then Inl (Inr (IndexError ''list index out of range''))
           else case langchain_to_chat_message (last messages) of
                  Inl e \<Rightarrow> Inl (Inr e)
                | Inr output \<Rightarrow> Inr (cm_content output))
      | UpdatesResponse (Some interrupts) \<Rightarrow>
          (case interrupts of
             [] \<Rightarrow> Inl (Inr (IndexError ''list index out of range''))
           | interrupt # _ \<Rightarrow>
               (case langchain_to_chat_message (AIMessage (interrupt_value interrupt) []) of
                  Inl e \<Rightarrow> Inl (Inr e)
                | Inr output \<Rightarrow> Inr (cm_content output)))
      | UpdatesResponse None \<Rightarrow>
          Inl (Inl (AgentExecutionError ''Unexpected response type: updates'' 400))
      | OtherResponse response_type \<Rightarrow>
          Inl (Inl (AgentExecutionError (''Unexpected response type: '' @ response_type) 400)))"

text \<open>
  \<^verbatim>\<open>_handle_input\<close>, line 152: the thread identifier of the request is used when it is
  given and not empty, and a new one (\<^verbatim>\<open>uuid4()\<close>) otherwise.
\<close>

definition effective_thread :: "string option \<Rightarrow> string \<Rightarrow> string" where
  "effective_thread requested_thread new_thread =
     (case requested_thread of
        None \<Rightarrow> new_thread
      | Some t \<Rightarrow> if t = [] then new_thread else t)"

text \<open>
  \<^verbatim>\<open>invoke\<close>, lines 203-265, for the request \<open>(message, requested_thread)\<close>. \<open>new_run\<close>
  and \<open>new_thread\<close> are the two values that \<^verbatim>\<open>uuid4()\<close> gives in \<^verbatim>\<open>_handle_input\<close>.
\<close>

definition invoke ::
  "string \<Rightarrow> string option \<Rightarrow> string \<Rightarrow> string \<Rightarrow> string \<Rightarrow> agent_outcome \<Rightarrow>
     agent_error + AgentResponse" where
  "invoke message requested_thread agent_id new_run new_thread outcome =
     (case get_agent agent_id of
        Inl e \<Rightarrow> Inl (AgentError ''An unexpected error occurred'' 500)
      | Inr agent \<Rightarrow>
          (let tid = effective_thread requested_thread new_thread
           in case outcome of
                AgentCancelled \<Rightarrow>
                  Inr \<lparr>resp_content = ''Generation was stopped.'', resp_thread_id = tid,
                       resp_run_id = new_run\<rparr>
              | AgentRaises e \<Rightarrow> Inl (AgentError ''An unexpected error occurred'' 500)
              | AgentReturns response_events \<Rightarrow>
                  (case read_response response_events of
                     Inl (Inl agent_error) \<Rightarrow> Inl agent_error
                   | Inl (Inr e) \<Rightarrow> Inl (AgentError ''An unexpected error occurred'' 500)
                   | Inr text \<Rightarrow> Inr \<lparr>resp_content = text, resp_thread_id = tid, resp_run_id = new_run\<rparr>)))"

section \<open>The agent and its checkpointer\<close>

text \<open>
  \<^verbatim>\<open>agents/Agent_AI/pre_model_hook.py\<close>: \<^verbatim>\<open>extract_conversation_history\<close> reads the
  messages before the current one, at most \<open>max_history_entries\<close> of them
  (\<^verbatim>\<open>messages[-max_history_entries-1:-1]\<close>), and keeps the human and the AI messages with
  their roles.
\<close>

fun history_entry :: "BaseMessage \<Rightarrow> (string \<times> content) list" where
  "history_entry (HumanMessage c) = [(''utilisateur'', c)]"
| "history_entry (AIMessage c tool_calls) = [(''assistant'', c)]"
| "history_entry (ToolMessage c tool_call_id) = []"
| "history_entry (OtherMessage cls) = []"

definition extract_conversation_history :: "BaseMessage list \<Rightarrow> nat \<Rightarrow> (string \<times> content) list" where
  "extract_conversation_history messages max_history_entries =
     (let recent_messages =
            (if length messages > 1
             then butlast (drop (length messages - (max_history_entries + 1)) messages)
             else [])
      in concat (map history_entry recent_messages))"

text \<open>
  What the language model is called with: the variables that \<^verbatim>\<open>custom_prompt_modifier\<close>
  puts into the prompt template, and the messages of the state. The template and the
  model are outside the repository; the model is a function of this input to its reply,
  the content of an AI message and its tool calls. A tool is a function of the tool call
  to the content of the tool message.
\<close>

record model_input =
  mi_user_info :: string
  mi_today_date :: string
  mi_conversation_history :: "(string \<times> content) list"
  mi_messages :: "BaseMessage list"

text \<open>
  Modelled from the spec: the tool node of the framework's agent is not in the repository;
  it answers a tool call with a tool message that carries the identifier of the call.
\<close>

definition tool_message_id :: "tool_call \<Rightarrow> string" where
  "tool_message_id tool_call = (case tc_id tool_call of Some (Some k) \<Rightarrow> k | _ \<Rightarrow> [])"

text \<open>
  Modelled from the spec: the agent that \<^verbatim>\<open>create_react_agent\<close> builds is the framework's
  and not in the repository; the spec calls it a react agent, a reason and act loop with
  tool calling. \<^verbatim>\<open>agents/Agent_AI/Agent_AI.py\<close> gives it the model, five tools and
  \<^verbatim>\<open>pre_model_hook\<close>. One turn of the loop: \<^verbatim>\<open>pre_model_hook\<close> extracts the conversation
  history from the messages, the model is called and its reply is appended; a reply
  without tool calls ends the run, otherwise every tool call is run, the tool messages
  are appended and the loop goes on. \<open>limit\<close> is the number of turns that the framework's
  recursion limit allows; when it is used up the framework raises.
\<close>

fun agent_loop ::
  "nat \<Rightarrow> (model_input \<Rightarrow> content \<times> tool_call list) \<Rightarrow> (tool_call \<Rightarrow> content) \<Rightarrow> string \<Rightarrow> string \<Rightarrow>
     BaseMessage list \<Rightarrow> BaseMessage list \<times> exn option" where
  "agent_loop 0 llm tools user_info today_date messages =
     (messages, Some (AgentFailure ''Recursion limit reached without hitting a stop condition''))"
| "agent_loop (Suc limit) llm tools user_info today_date messages =
     (let conversation_history = extract_conversation_history messages 10;
          reply = llm \<lparr>mi_user_info = user_info, mi_today_date = today_date,
                     mi_conversation_history = conversation_history, mi_messages = messages\<rparr>;
          messages = messages @ [AIMessage (fst reply) (snd reply)]
      in if snd reply = [] then (messages, None)
         else agent_loop limit llm tools user_info today_date
                (messages @ map (\<lambda>tool_call. ToolMessage (tools tool_call) (tool_message_id tool_call))
                              (snd reply)))"

text \<open>The state of a checkpointer: the messages saved for each thread identifier.\<close>

type_synonym checkpoints = "(string \<times> BaseMessage list) list"

text \<open>
  Modelled from the spec: the checkpointer is the framework's \<^verbatim>\<open>InMemorySaver\<close>, not in
  the repository; the spec calls it the framework-level cross-run memory.
  \<^verbatim>\<open>agents/Agent_AI/Agent_AI.py\<close> creates one when the module is loaded and builds the agent
  with it, and \<^verbatim>\<open>_handle_input\<close> passes the thread identifier in the configuration of
  every run. It is a dictionary from thread identifiers to saved messages; a thread
  without an entry has no messages.
\<close>

definition saved_messages :: "checkpoints \<Rightarrow> string \<Rightarrow> BaseMessage list" where
  "saved_messages checkpointer thread =
     (case map_of checkpointer thread of None \<Rightarrow> [] | Some messages \<Rightarrow> messages)"

text \<open>
  Modelled from the spec: one run of the agent with its checkpointer, both the
  framework's and not in the repository, as the docstring of \<^verbatim>\<open>pre_model_hook\<close> describes
  it (with a checkpointer the messages persist between the interactions with one
  \<^verbatim>\<open>thread_id\<close>). The messages saved for the thread are restored, the input messages are
  appended, the loop runs, and the messages it ends with are saved for the thread, also
  when it raises. What \<^verbatim>\<open>ainvoke\<close> returns ends with the response of type \<^verbatim>\<open>values\<close>,
  which holds these messages.
\<close>

definition agent_run ::
  "(model_input \<Rightarrow> content \<times> tool_call list) \<Rightarrow> (tool_call \<Rightarrow> content) \<Rightarrow> nat \<Rightarrow> checkpoints \<Rightarrow>
     string \<Rightarrow> string \<Rightarrow> string \<Rightarrow> BaseMessage list \<Rightarrow> agent_outcome \<times> checkpoints" where
  "agent_run llm tools limit checkpointer thread user_info today_date input_messages =
     (case agent_loop limit llm tools user_info today_date
             (saved_messages checkpointer thread @ input_messages) of
        (messages, raised) \<Rightarrow>
          (case raised of
             None \<Rightarrow> AgentReturns [ValuesResponse messages]
           | Some e \<Rightarrow> AgentRaises e,
           AList.update thread messages checkpointer))"

text \<open>
  The request \<open>(message, requested_thread)\<close> handled by \<^verbatim>\<open>invoke\<close> with this agent: the
  response and the checkpointer after the run.
\<close>

definition invoke_agent ::
  "(model_input \<Rightarrow> content \<times> tool_call list) \<Rightarrow> (tool_call \<Rightarrow> content) \<Rightarrow> nat \<Rightarrow> checkpoints \<Rightarrow>
     string \<Rightarrow> string option \<Rightarrow> string \<Rightarrow> string \<Rightarrow> string \<Rightarrow> string \<Rightarrow>
     (agent_error + AgentResponse) \<times> checkpoints" where
  "invoke_agent llm tools limit checkpointer message requested_thread new_run new_thread
       user_info today_date =
     (case agent_run llm tools limit checkpointer (effective_thread requested_thread new_thread)
             user_info today_date [HumanMessage (ContentStr message)] of
        (outcome, checkpointer') \<Rightarrow>
          (invoke message requested_thread ''Agent-AI'' new_run new_thread outcome,
           checkpointer'))"

text \<open>
  Models and a tool for concrete runs: a model that replies with the number of messages
  it is given, and a model that calls the weather tool and then replies with the tool's
  result.
\<close>

definition counting_model :: "model_input \<Rightarrow> content \<times> tool_call list" where
  "counting_model input = (ContentStr (digits (length (mi_messages input))), [])"

definition weather_model :: "model_input \<Rightarrow> content \<times> tool_call list" where
  "weather_model input =
     (case rev (mi_messages input) of
        ToolMessage result tool_call_id # _ \<Rightarrow> (result, [])
      | _ \<Rightarrow> (ContentStr [],
               [ToolCall (Some (JStr ''get_weather'')) (Some (JObj [(''city'', JStr ''Paris'')]))
                  (Some (Some ''c1''))]))"

definition weather_tools :: "tool_call \<Rightarrow> content" where
  "weather_tools tool_call = ContentStr ''sunny''"

section \<open>Notions for the properties of a run\<close>

text \<open>The driver's test on a frame translated from an \<^verbatim>\<open>updates\<close> event (lines 536-539).\<close>

definition forwarded :: "string \<Rightarrow> bool" where
  "forwarded message = (sublist ''event: tool_execution_start'' message
      \<or> sublist ''event: tool_execution_complete'' message)"

text \<open>The generator's state when the loop over the events of a run ends.\<close>

definition run_state :: "string \<Rightarrow> string \<Rightarrow> string \<Rightarrow> stream_event list \<Rightarrow> generator_state" where
  "run_state user_input thread_id run_id events =
     fst (snd (for_each (stream_step run_id thread_id user_input) initial_state events))"

text \<open>
  \<open>tracked out te\<close>: the start frame of every pending entry of the tracker is among the
  frames \<open>out\<close>. \<open>preceded out\<close>: every \<^verbatim>\<open>tool_execution_complete\<close> frame of \<open>out\<close> comes
  after the \<^verbatim>\<open>tool_execution_start\<close> frame with the same name and parameters.
  \<open>noncomplete f\<close>: the frame \<open>f\<close> is not a \<^verbatim>\<open>tool_execution_complete\<close> frame.
\<close>

definition tracked :: "string list \<Rightarrow> tracker \<Rightarrow> bool" where
  "tracked out te = (\<forall>k n p. (k, n, p) \<in> set te \<longrightarrow> tool_execution_start_frame n p \<in> set out)"

definition preceded :: "string list \<Rightarrow> bool" where
  "preceded out = (\<forall>j<length out. \<forall>n p. out ! j = tool_execution_complete_frame n p \<longrightarrow>
      (\<exists>i<j. out ! i = tool_execution_start_frame n p))"

definition noncomplete :: "string \<Rightarrow> bool" where
  "noncomplete f = (\<forall>n p. f \<noteq> tool_execution_complete_frame n p)"

definition custom_not_complete :: "stream_event \<Rightarrow> bool" where
  "custom_not_complete ev = (\<forall>t d. ev = CustomEvent (CustomData t d) \<longrightarrow>
      noncomplete (create_sse_data \<lparr>sse_type = t, sse_content = d\<rparr>))"

text \<open>
  The invariants of the loops. In the translator, \<open>sent pre acc\<close> is what the client has
  received: the frames \<open>pre\<close> sent before the call, then the yielded frames \<open>acc\<close> that
  pass the driver's test.
\<close>

definition sent :: "string list \<Rightarrow> updates_yield list \<Rightarrow> string list" where
  "sent pre acc = pre @ filter forwarded (map fst acc)"

definition tinv :: "string list \<Rightarrow> updates_yield list \<Rightarrow> updates_state \<Rightarrow> exn option \<Rightarrow> bool" where
  "tinv pre acc s r = (preceded (sent pre acc) \<and> tracked (sent pre acc) (us_tool_executions s))"

definition dinv :: "string list \<Rightarrow> generator_state \<Rightarrow> exn option \<Rightarrow> bool" where
  "dinv out g r = (preceded out \<and> tracked out (tool_executions g))"

definition ukeys :: "updates_yield list \<Rightarrow> updates_state \<Rightarrow> exn option \<Rightarrow> bool" where
  "ukeys acc s r = distinct (map fst (us_tool_executions s))"

definition dkeys :: "string list \<Rightarrow> generator_state \<Rightarrow> exn option \<Rightarrow> bool" where
  "dkeys out g r = distinct (map fst (tool_executions g))"

text \<open>
  The \<^verbatim>\<open>stream_start\<close> frame. \<open>token_or_error f\<close>: the frame \<open>f\<close> begins as a
  \<^verbatim>\<open>stream_token\<close> or an \<^verbatim>\<open>error\<close> frame.
\<close>

definition token_or_error :: "string \<Rightarrow> bool" where
  "token_or_error f = (prefix ''event: stream_token'' f \<or> prefix ''event: error'' f)"

definition custom_not_start :: "stream_event \<Rightarrow> bool" where
  "custom_not_start ev = (\<forall>t d. ev = CustomEvent (CustomData t d) \<longrightarrow>
      create_sse_data \<lparr>sse_type = t, sse_content = d\<rparr> \<noteq> stream_start_frame)"

text \<open>What one step of the driver does to the frames and the flag.\<close>

definition step_shape :: "generator_state \<Rightarrow> string list \<Rightarrow> generator_state \<Rightarrow> exn option \<Rightarrow> bool" where
  "step_shape g fs g' r =
     ((stream_start_frame \<notin> set fs \<and> (stream_started g \<longrightarrow> stream_started g'))
      \<or> (\<not> stream_started g \<and> stream_started g'
          \<and> ((\<exists>y. fs = [stream_start_frame, y] \<and> token_or_error y)
              \<or> (fs = [stream_start_frame] \<and> r \<noteq> None))))"

text \<open>
  A tool frame is a \<^verbatim>\<open>tool_execution_start\<close> or a \<^verbatim>\<open>tool_execution_complete\<close> frame. A
  tool call is complete when it has the three keys that the translator reads.
\<close>

definition tool_frame :: "string \<Rightarrow> bool" where
  "tool_frame f =
     (\<exists>n p. f = tool_execution_start_frame n p \<or> f = tool_execution_complete_frame n p)"

definition complete_call :: "tool_call \<Rightarrow> bool" where
  "complete_call tc = (tc_name tc \<noteq> None \<and> tc_args tc \<noteq> None \<and> tc_id tc \<noteq> None)"

text \<open>
  A quiet event is one from which the translator and the driver produce tool frames only,
  without text and without an exception: it is not a pair, or of another mode; or an
  \<^verbatim>\<open>updates\<close> event without interrupts whose messages are AI messages with complete tool
  calls, tool results, echoes of the input, or messages with empty text; or a
  \<^verbatim>\<open>messages\<close> event that is tagged \<^verbatim>\<open>skip_stream\<close>, is no chunk, or has no content
  left once its tool calls are removed.
\<close>

fun quiet_message :: "string \<Rightarrow> BaseMessage \<Rightarrow> bool" where
  "quiet_message user_input (HumanMessage c) =
     (convert_message_content_to_string c = user_input \<or> convert_message_content_to_string c = [])"
| "quiet_message user_input (AIMessage c tool_calls) =
     (if tool_calls = [] then convert_message_content_to_string c = []
      else list_all complete_call tool_calls)"
| "quiet_message user_input (ToolMessage c tool_call_id) = True"
| "quiet_message user_input (OtherMessage cls) = False"

fun quiet_update :: "string \<Rightarrow> node_update \<Rightarrow> bool" where
  "quiet_update user_input (Interrupts interrupts) = (interrupts = [])"
| "quiet_update user_input (NodeMessages update_messages) =
     list_all (quiet_message user_input) update_messages"

fun quiet :: "string \<Rightarrow> stream_event \<Rightarrow> bool" where
  "quiet user_input NotATuple = True"
| "quiet user_input OtherMode = True"
| "quiet user_input (UpdatesEvent event) = list_all (quiet_update user_input) event"
| "quiet user_input (MessagesEvent msg tags) =
     (''skip_stream'' \<in> set tags
      \<or> (case msg of
            NotAChunk \<Rightarrow> True
          | AIMessageChunk c \<Rightarrow>
              remove_tool_calls c = Inr (ContentStr []) \<or> remove_tool_calls c = Inr (ContentList [])))"
| "quiet user_input (CustomEvent event) = False"

text \<open>
  The events that open the stream by design, with the frame that follows
  \<^verbatim>\<open>stream_start\<close>: a chunk of the \<^verbatim>\<open>messages\<close> channel with text is sent as a token, an
  exception of the \<^verbatim>\<open>custom\<close> channel as an error.
\<close>

fun opening_frame :: "stream_event \<Rightarrow> string option" where
  "opening_frame (MessagesEvent msg tags) =
     (case msg of
        AIMessageChunk (ContentStr text) \<Rightarrow>
          if text \<noteq> [] \<and> ''skip_stream'' \<notin> set tags then Some (stream_token_frame text) else None
      | _ \<Rightarrow> None)"
| "opening_frame (CustomEvent event) =
     (case event of CustomException text \<Rightarrow> Some (error_frame text) | _ \<Rightarrow> None)"
| "opening_frame _ = None"

text \<open>The invariants of the loops over quiet events, and over events after the opening.\<close>

definition qinv :: "bool \<Rightarrow> updates_yield list \<Rightarrow> updates_state \<Rightarrow> exn option \<Rightarrow> bool" where
  "qinv b acc s r = (r = None \<and> us_stream_started s = b \<and> (\<forall>y\<in>set acc. tool_frame (fst y)))"

definition qdinv :: "bool \<Rightarrow> string list \<Rightarrow> generator_state \<Rightarrow> exn option \<Rightarrow> bool" where
  "qdinv b out g r = (r = None \<and> stream_started g = b \<and> (\<forall>f\<in>set out. tool_frame f))"

definition oinv :: "string list \<Rightarrow> generator_state \<Rightarrow> exn option \<Rightarrow> bool" where
  "oinv out g r = (stream_started g \<and> stream_start_frame \<notin> set out)"




section \<open>Properties of the encoder\<close>










































section \<open>The driver and the translator at concrete runs\<close>

lemmas frame_defs = stream_start_frame_def stream_token_frame_def tool_execution_start_frame_def
  tool_execution_complete_frame_def error_frame_def stream_end_frame_def create_sse_data_def
  dumps_str_def escape_char_def

lemmas translator_defs = process_stream_updates_def node_step_def message_step_def
  try_message_def except_message_def tool_call_step_def interrupt_step_def interrupt_content_def
  new_chat_message_def
  convert_message_content_to_string_def unbound_chat_message_def

lemmas driver_defs = message_generator_def stream_step_def updates_branch_def messages_branch_def
  custom_branch_def consume_yield_def except_frames_def finally_frames_def initial_state_def
  remove_tool_calls_def

text \<open>
  C1. The claim: a run whose stream was opened, also one opened by the error path, ends
  with a \<^verbatim>\<open>stream_end\<close> frame. When the event source raises before anything was sent, the
  \<^verbatim>\<open>except\<close> clause sends \<^verbatim>\<open>stream_start\<close> and the error frame, and the \<^verbatim>\<open>finally\<close>
  clause sends nothing: the run has two frames and no \<^verbatim>\<open>stream_end\<close>.
\<close>

theorem except_path_omits_stream_end:
  "message_generator ''hi'' ''t1'' ''r1'' [] (Raises (AgentFailure ''boom'')) =
     [''event: stream_start'' @ [NL, NL],
      ''event: error'' @ [NL] @ ''data: '' @ [DQ] @ ''boom'' @ [DQ] @ [NL, NL]]
   \<and> stream_end_frame ''t1''
       \<notin> set (message_generator ''hi'' ''t1'' ''r1'' [] (Raises (AgentFailure ''boom'')))"
  by (simp add: driver_defs frame_defs)

text \<open>
  C3. The claim: the error frame for an unhandled exception carries a generic message
  without the exception's details. The \<^verbatim>\<open>except\<close> clause sends \<^verbatim>\<open>str(e)\<close>: the text of
  the exception is the content of the error frame.
\<close>

theorem except_path_sends_exception_text:
  "message_generator ''hi'' ''t1'' ''r1'' []
       (Raises (AgentFailure ''connect to db.internal:5432 failed'')) =
     [stream_start_frame, error_frame ''connect to db.internal:5432 failed'']
   \<and> sublist ''db.internal:5432''
       (last (message_generator ''hi'' ''t1'' ''r1'' []
          (Raises (AgentFailure ''connect to db.internal:5432 failed''))))"
  by (simp add: driver_defs frame_defs sublist_code)

text \<open>
  C4. The claim: a message that cannot be translated yields an error frame and the loop
  goes on with the next message. When the first message of an event is of an unsupported
  class, the handler reads the unbound variable \<^verbatim>\<open>chat_message\<close>: the translator yields
  \<^verbatim>\<open>stream_start\<close> and raises, the following message is not processed, and the driver ends
  the run with the error frame of its own \<^verbatim>\<open>except\<close> clause.
\<close>

theorem untranslatable_first_message_aborts:
  "process_stream_updates
       [NodeMessages [OtherMessage ''SystemMessage'', AIMessage (ContentStr ''hello'') []]]
       ''r1'' ''t1'' ''hi'' [] False [] =
     ([(stream_start_frame, True)],
      \<lparr>us_stream_started = True, us_chat_message = None, us_tool_executions = [],
       us_completed_tools = []\<rparr>,
      Some unbound_chat_message)
   \<and> message_generator ''hi'' ''t1'' ''r1''
       [UpdatesEvent [NodeMessages [OtherMessage ''SystemMessage'',
                                    AIMessage (ContentStr ''hello'') []]],
        MessagesEvent (AIMessageChunk (ContentStr ''later'')) []] Exhausted =
     [error_frame (str_exn unbound_chat_message), stream_end_frame ''t1'']"
  by (simp add: driver_defs translator_defs frame_defs sublist_code)

text \<open>
  C5. The claim: an interrupt with content, on a stream that has not opened, yields
  \<^verbatim>\<open>stream_start\<close> and a \<^verbatim>\<open>stream_token\<close> frame with the interrupt's content. The
  translator reads the attribute \<^verbatim>\<open>content\<close>, which an interrupt does not have (its value
  is in \<^verbatim>\<open>value\<close>, where \<^verbatim>\<open>invoke\<close> reads it): it yields nothing and raises, and the
  driver ends the run with \<^verbatim>\<open>stream_start\<close> and the error frame of its \<^verbatim>\<open>except\<close> clause.
\<close>

theorem interrupt_content_is_not_read:
  "process_stream_updates [Interrupts [Interrupt (ContentStr ''Please confirm'')]]
       ''r1'' ''t1'' ''hi'' [] False [] =
     ([],
      \<lparr>us_stream_started = False, us_chat_message = None, us_tool_executions = [],
       us_completed_tools = []\<rparr>,
      Some (AttributeError ([CHR 0x27] @ ''Interrupt'' @ [CHR 0x27]
              @ '' object has no attribute '' @ [CHR 0x27] @ ''content'' @ [CHR 0x27])))
   \<and> message_generator ''hi'' ''t1'' ''r1''
       [UpdatesEvent [Interrupts [Interrupt (ContentStr ''Please confirm'')]]] Exhausted =
     [stream_start_frame,
      error_frame ([CHR 0x27] @ ''Interrupt'' @ [CHR 0x27] @ '' object has no attribute ''
         @ [CHR 0x27] @ ''content'' @ [CHR 0x27])]
   \<and> invoke ''hi'' (Some ''t1'') ''Agent-AI'' ''r1'' ''t9''
       (AgentReturns [UpdatesResponse (Some [Interrupt (ContentStr ''Please confirm'')])]) =
     Inr \<lparr>resp_content = ''Please confirm'', resp_thread_id = ''t1'', resp_run_id = ''r1''\<rparr>"
  by (simp add: driver_defs translator_defs invoke_def read_response_def get_agent_def agents_def
        effective_thread_def)

text \<open>
  C6. The claim: of the frames translated from an \<^verbatim>\<open>updates\<close> event only the two tool
  frames reach the client. The driver tests whether the text of the frame contains
  \<^verbatim>\<open>event: tool_execution_start\<close>; the \<^verbatim>\<open>stream_token\<close> frame of an AI message whose
  text contains these words passes the test and is sent.
\<close>

theorem token_frame_forwarded_from_updates:
  "message_generator ''hi'' ''t1'' ''r1''
       [UpdatesEvent [NodeMessages [AIMessage (ContentStr ''event: tool_execution_start'') []]]]
       Exhausted =
     [stream_token_frame ''event: tool_execution_start'', stream_end_frame ''t1'']
   \<and> stream_token_frame ''event: tool_execution_start'' =
       ''event: stream_token'' @ [NL] @ ''data: {'' @ [DQ] @ ''token'' @ [DQ] @ '': '' @ [DQ]
         @ ''event: tool_execution_start'' @ [DQ] @ ''}'' @ [NL, NL]"
  by (simp add: driver_defs translator_defs frame_defs sublist_code)

section \<open>The tool-call tracker\<close>

lemma for_each_invariant:
  assumes "for_each body s xs = (zs, s', r)" and "I acc s None"
    and "\<And>acc s x ys s' r. I acc s None \<Longrightarrow> x \<in> set xs \<Longrightarrow> body s x = (ys, s', r) \<Longrightarrow> I (acc @ ys) s' r"
  shows "I (acc @ zs) s' r"
  using assms
proof (induction xs arbitrary: s acc zs s' r)
  case Nil
  then show ?case by simp
next
  case (Cons x xs)
  obtain ys s1 r1 where b: "body s x = (ys, s1, r1)" by (cases "body s x") auto
  have i1: "I (acc @ ys) s1 r1" using Cons.prems(3) [OF Cons.prems(2) _ b] by simp
  show ?case
  proof (cases r1)
    case None
    obtain zs' s2 r2 where f: "for_each body s1 xs = (zs', s2, r2)"
      by (cases "for_each body s1 xs") auto
    have eq: "zs = ys @ zs'" "s' = s2" "r = r2" using Cons.prems(1) b f None by auto
    have i2: "I (acc @ ys) s1 None" using i1 None by simp
    have step: "I (acc @ ys) s' r"
      if "I acc s None" "y \<in> set xs" "body s y = (ys, s', r)" for acc s y ys s' r
      using Cons.prems(3) [of acc s y ys s' r] that by simp
    have "I ((acc @ ys) @ zs') s2 r2"
      by (rule Cons.IH [OF f i2 step])
    then show ?thesis using eq by simp
  next
    case (Some e)
    then have "zs = ys" "s' = s1" "r = r1" using Cons.prems(1) b by auto
    then show ?thesis using i1 by simp
  qed
qed

lemma forwarded_start: "forwarded (tool_execution_start_frame n p)"
  by (simp add: forwarded_def tool_execution_start_frame_def create_sse_data_def sublist_code)

lemma not_forwarded_stream_start: "\<not> forwarded stream_start_frame"
  by (simp add: forwarded_def stream_start_frame_def create_sse_data_def sublist_code)

lemma noncomplete_frames:
  "noncomplete stream_start_frame"
  "noncomplete (stream_token_frame x)"
  "noncomplete (error_frame x)"
  "noncomplete (stream_end_frame x)"
  "noncomplete (tool_execution_start_frame n p)"
proof -
  show "noncomplete stream_start_frame"
    by (simp add: noncomplete_def stream_start_frame_def tool_execution_complete_frame_def create_sse_data_def)
  show "noncomplete (stream_token_frame x)"
    by (simp add: noncomplete_def stream_token_frame_def tool_execution_complete_frame_def create_sse_data_def)
  show "noncomplete (error_frame x)"
    by (simp add: noncomplete_def error_frame_def tool_execution_complete_frame_def create_sse_data_def)
  show "noncomplete (stream_end_frame x)"
    by (simp add: noncomplete_def stream_end_frame_def tool_execution_complete_frame_def create_sse_data_def)
  show "noncomplete (tool_execution_start_frame n p)"
    by (simp add: noncomplete_def tool_execution_start_frame_def tool_execution_complete_frame_def create_sse_data_def)
qed

lemma preceded_Nil: "preceded []"
  by (simp add: preceded_def)

lemma preceded_snoc:
  assumes "preceded out" and "\<And>n p. f = tool_execution_complete_frame n p \<Longrightarrow> tool_execution_start_frame n p \<in> set out"
  shows "preceded (out @ [f])"
  unfolding preceded_def
proof (intro allI impI)
  fix j n p
  assume j: "j < length (out @ [f])" and c: "(out @ [f]) ! j = tool_execution_complete_frame n p"
  show "\<exists>i<j. (out @ [f]) ! i = tool_execution_start_frame n p"
  proof (cases "j < length out")
    case True
    then have "out ! j = tool_execution_complete_frame n p" using c by (simp add: nth_append)
    then obtain i where "i < j" "out ! i = tool_execution_start_frame n p"
      using assms(1) True unfolding preceded_def by blast
    then show ?thesis using True by (auto simp: nth_append intro!: exI [of _ i])
  next
    case False
    then have jl: "j = length out" using j by simp
    then have "f = tool_execution_complete_frame n p" using c by simp
    then have "tool_execution_start_frame n p \<in> set out" by (rule assms(2))
    then obtain i where "i < length out" "out ! i = tool_execution_start_frame n p"
      by (auto simp: in_set_conv_nth)
    then show ?thesis using jl by (auto simp: nth_append intro!: exI [of _ i])
  qed
qed

lemma preceded_append_other:
  "preceded out \<Longrightarrow> \<forall>f\<in>set fs. noncomplete f \<Longrightarrow> preceded (out @ fs)"
proof (induction fs rule: rev_induct)
  case Nil
  then show ?case by simp
next
  case (snoc f fs)
  then have "preceded (out @ fs)" by simp
  moreover have "noncomplete f" using snoc.prems(2) by simp
  ultimately have "preceded ((out @ fs) @ [f])"
    by (intro preceded_snoc) (auto simp: noncomplete_def)
  then show ?case by simp
qed

lemma tracked_mono:
  "tracked out te \<Longrightarrow> set out \<subseteq> set out' \<Longrightarrow> set te' \<subseteq> set te \<Longrightarrow> tracked out' te'"
  unfolding tracked_def by blast

lemma set_update_subset: "set (AList.update k v al) \<subseteq> insert (k, v) (set al)"
  by (induction al) auto

lemma set_delete_subset: "set (AList.delete k al) \<subseteq> set al"
  by (auto simp: AList.delete_eq)

lemma tracked_update:
  assumes "tracked out te"
  shows "tracked (out @ [tool_execution_start_frame n p]) (AList.update k (n, p) te)"
  unfolding tracked_def
proof (intro allI impI)
  fix k' n' p'
  assume "(k', n', p') \<in> set (AList.update k (n, p) te)"
  then have "(k', n', p') = (k, n, p) \<or> (k', n', p') \<in> set te"
    using set_update_subset [of k "(n, p)" te] by auto
  then show "tool_execution_start_frame n' p' \<in> set (out @ [tool_execution_start_frame n p])"
    using assms unfolding tracked_def by auto
qed

lemma sent_append: "sent pre (acc @ ys) = sent pre acc @ filter forwarded (map fst ys)"
  by (simp add: sent_def)

lemma tinv_same_tracker:
  assumes "tinv pre acc s r0" and "\<forall>y\<in>set ys. noncomplete (fst y)"
    and "set (us_tool_executions s') \<subseteq> set (us_tool_executions s)"
  shows "tinv pre (acc @ ys) s' r"
proof -
  have "preceded (sent pre acc @ filter forwarded (map fst ys))"
    using assms(1,2) by (intro preceded_append_other) (auto simp: tinv_def)
  moreover have "tracked (sent pre acc @ filter forwarded (map fst ys)) (us_tool_executions s')"
    using assms(1,3) by (auto simp: tinv_def intro: tracked_mono [of "sent pre acc" "us_tool_executions s"])
  ultimately show ?thesis by (simp add: tinv_def sent_append)
qed

lemma tinv_interrupt_step:
  assumes "tinv pre acc s None" and "interrupt_step s c = (ys, s', r)"
  shows "tinv pre (acc @ ys) s' r"
  using assms(2)
  by (intro tinv_same_tracker [OF assms(1)])
     (auto simp: interrupt_step_def interrupt_content_def split: if_splits)

lemma tinv_tool_call_step:
  assumes "tinv pre acc s None" and "tool_call_step s tc = (ys, s', r)"
  shows "tinv pre (acc @ ys) s' r"
proof (cases "\<exists>n a k. tc_name tc = Some n \<and> tc_args tc = Some a \<and> tc_id tc = Some k")
  case True
  then obtain n a k where tc: "tc_name tc = Some n" "tc_args tc = Some a" "tc_id tc = Some k" by blast
  have ys: "ys = [(tool_execution_start_frame n a, us_stream_started s)]"
    and s': "us_tool_executions s' = AList.update k (n, a) (us_tool_executions s)"
    using assms(2) tc by (auto simp: tool_call_step_def)
  have snt: "sent pre (acc @ ys) = sent pre acc @ [tool_execution_start_frame n a]"
    by (simp add: sent_append ys forwarded_start)
  have "preceded (sent pre acc @ [tool_execution_start_frame n a])"
    using assms(1) noncomplete_frames(5) [of n a]
    by (intro preceded_snoc) (auto simp: tinv_def noncomplete_def)
  moreover have "tracked (sent pre acc @ [tool_execution_start_frame n a]) (us_tool_executions s')"
    unfolding s' using assms(1) by (intro tracked_update) (simp add: tinv_def)
  ultimately show ?thesis by (simp add: tinv_def snt)
next
  case False
  then have "ys = [] \<and> s' = s" using assms(2)
    by (auto simp: tool_call_step_def split: option.splits)
  then show ?thesis using assms(1) by (simp add: tinv_def)
qed

lemma forwarded_complete: "forwarded (tool_execution_complete_frame n p)"
  by (simp add: forwarded_def tool_execution_complete_frame_def create_sse_data_def sublist_code)

lemma complete_eq_start_eq:
  "tool_execution_complete_frame n p = tool_execution_complete_frame n' p'
     \<Longrightarrow> tool_execution_start_frame n p = tool_execution_start_frame n' p'"
  by (simp add: tool_execution_complete_frame_def tool_execution_start_frame_def create_sse_data_def)

lemma tinv_tool_calls:
  assumes "tinv pre acc s None" and "for_each tool_call_step s tcs = (ys, s', r)"
  shows "tinv pre (acc @ ys) s' r"
  by (rule for_each_invariant [where I = "tinv pre", OF assms(2) assms(1)])
     (rule tinv_tool_call_step)

lemma tinv_interrupts:
  assumes "tinv pre acc s None" and "for_each interrupt_step s cs = (ys, s', r)"
  shows "tinv pre (acc @ ys) s' r"
  by (rule for_each_invariant [where I = "tinv pre", OF assms(2) assms(1)])
     (rule tinv_interrupt_step)

lemma tinv_chat_message:
  "tinv pre acc (s\<lparr>us_chat_message := c\<rparr>) r = tinv pre acc s r"
  by (simp add: tinv_def)

lemma tinv_complete:
  assumes "tinv pre acc s None" and "map_of (us_tool_executions s) k = Some (n, p)"
    and "set (us_tool_executions s') \<subseteq> set (us_tool_executions s)"
  shows "tinv pre (acc @ [(tool_execution_complete_frame n p, b)]) s' r"
proof -
  have mem: "(k, n, p) \<in> set (us_tool_executions s)" using assms(2) by (rule map_of_SomeD)
  have st: "tool_execution_start_frame n p \<in> set (sent pre acc)"
    using assms(1) mem unfolding tinv_def tracked_def by blast
  have snt: "sent pre (acc @ [(tool_execution_complete_frame n p, b)]) =
      sent pre acc @ [tool_execution_complete_frame n p]"
    by (simp add: sent_append forwarded_complete)
  have "preceded (sent pre acc @ [tool_execution_complete_frame n p])"
  proof (rule preceded_snoc)
    show "preceded (sent pre acc)" using assms(1) by (simp add: tinv_def)
  next
    fix n' p'
    assume "tool_execution_complete_frame n p = tool_execution_complete_frame n' p'"
    then have "tool_execution_start_frame n p = tool_execution_start_frame n' p'"
      by (rule complete_eq_start_eq)
    then show "tool_execution_start_frame n' p' \<in> set (sent pre acc)" using st by simp
  qed
  moreover have "tracked (sent pre acc @ [tool_execution_complete_frame n p]) (us_tool_executions s')"
    using assms(1,3) by (auto simp: tinv_def intro: tracked_mono [of "sent pre acc" "us_tool_executions s"])
  ultimately show ?thesis by (simp add: tinv_def snt)
qed

lemma tinv_try_message:
  assumes "tinv pre acc s None" and "try_message run_id thread_id user_input s m = (ys, s', r)"
  shows "tinv pre (acc @ ys) s' r"
proof (cases "langchain_to_chat_message m")
  case (Inl e)
  then have "ys = []" "s' = s" using assms(2) by (auto simp: try_message_def)
  then show ?thesis using assms(1) by (simp add: tinv_def)
next
  case (Inr cv)
  define s1 where "s1 = s\<lparr>us_chat_message :=
      Some (cv\<lparr>cm_run_id := Some run_id, cm_thread_id := Some thread_id\<rparr>)\<rparr>"
  have i1: "tinv pre acc s1 None" using assms(1) by (simp add: s1_def tinv_chat_message)
  consider (skip) "cm_type cv = ''human'' \<and> cm_content cv = user_input"
    | (calls) "\<not> (cm_type cv = ''human'' \<and> cm_content cv = user_input)" "cm_tool_calls cv \<noteq> []"
    | (tool) "\<not> (cm_type cv = ''human'' \<and> cm_content cv = user_input)" "cm_tool_calls cv = []"
        "cm_type cv = ''tool''"
    | (plain) "\<not> (cm_type cv = ''human'' \<and> cm_content cv = user_input)" "cm_tool_calls cv = []"
        "cm_type cv \<noteq> ''tool''"
    by blast
  then show ?thesis
  proof cases
    case skip
    then have "ys = []" "s' = s1" using assms(2) Inr by (auto simp: try_message_def Let_def s1_def)
    then show ?thesis using i1 by (simp add: tinv_def)
  next
    case calls
    then have "for_each tool_call_step s1 (cm_tool_calls cv) = (ys, s', r)"
      using assms(2) Inr by (auto simp: try_message_def Let_def s1_def)
    then show ?thesis by (rule tinv_tool_calls [OF i1])
  next
    case tool
    show ?thesis
    proof (cases "map_of (us_tool_executions s) (cm_tool_call_id cv)")
      case None
      then have "ys = []" "s' = s1" using assms(2) Inr tool by (auto simp: try_message_def Let_def s1_def)
      then show ?thesis using i1 by (simp add: tinv_def)
    next
      case (Some info)
      obtain n p where info: "info = (n, p)" by (cases info)
      have ys: "ys = [(tool_execution_complete_frame n p, us_stream_started s1)]"
        and s': "us_tool_executions s' = AList.delete (cm_tool_call_id cv) (us_tool_executions s1)"
        and r: "r = None"
        using assms(2) Inr tool Some info by (auto simp: try_message_def Let_def s1_def)
      have sub: "set (us_tool_executions s') \<subseteq> set (us_tool_executions s1)"
        unfolding s' by (rule set_delete_subset)
      have m: "map_of (us_tool_executions s1) (cm_tool_call_id cv) = Some (n, p)"
        using Some info by (simp add: s1_def)
      show ?thesis unfolding ys by (rule tinv_complete [OF i1 m sub])
    qed
  next
    case plain
    then have "(\<forall>y\<in>set ys. noncomplete (fst y)) \<and> us_tool_executions s' = us_tool_executions s1"
      using assms(2) Inr
      by (auto simp: try_message_def Let_def s1_def noncomplete_frames split: if_splits)
    then show ?thesis by (intro tinv_same_tracker [OF i1]) auto
  qed
qed

lemma in_set_deleteD: "x \<in> set (AList.delete k al) \<Longrightarrow> x \<in> set al"
  using set_delete_subset [of k al] by blast

lemma tinv_except_message:
  assumes "tinv pre acc s r0" and "except_message s = (ys, s', r)"
  shows "tinv pre (acc @ ys) s' r"
proof -
  have "(\<forall>y\<in>set ys. noncomplete (fst y)) \<and> set (us_tool_executions s') \<subseteq> set (us_tool_executions s)"
    using assms(2)
    by (auto simp: except_message_def Let_def noncomplete_frames dest: in_set_deleteD
          split: if_splits option.splits)
  then show ?thesis by (intro tinv_same_tracker [OF assms(1)]) auto
qed

lemma tinv_message_step:
  assumes "tinv pre acc s None" and "message_step run_id thread_id user_input s m = (ys, s', r)"
  shows "tinv pre (acc @ ys) s' r"
proof -
  obtain ys1 s1 r1 where t: "try_message run_id thread_id user_input s m = (ys1, s1, r1)"
    by (cases "try_message run_id thread_id user_input s m") auto
  have i1: "tinv pre (acc @ ys1) s1 r1" by (rule tinv_try_message [OF assms(1) t])
  show ?thesis
  proof (cases r1)
    case None
    then have "ys = ys1" "s' = s1" "r = None" using assms(2) t by (auto simp: message_step_def)
    then show ?thesis using i1 None by simp
  next
    case (Some e)
    obtain zs s2 r2 where x: "except_message s1 = (zs, s2, r2)"
      by (cases "except_message s1") auto
    have "ys = ys1 @ zs" "s' = s2" "r = r2" using assms(2) t x Some by (auto simp: message_step_def)
    moreover have "tinv pre ((acc @ ys1) @ zs) s2 r2" by (rule tinv_except_message [OF i1 x])
    ultimately show ?thesis by simp
  qed
qed

lemma tinv_node_step:
  assumes "tinv pre acc s None" and "node_step run_id thread_id user_input s u = (ys, s', r)"
  shows "tinv pre (acc @ ys) s' r"
proof (cases u)
  case (Interrupts cs)
  then have "for_each interrupt_step s cs = (ys, s', r)" using assms(2) by (simp add: node_step_def)
  then show ?thesis by (rule tinv_interrupts [OF assms(1)])
next
  case (NodeMessages ms)
  then have f: "for_each (message_step run_id thread_id user_input) s ms = (ys, s', r)"
    using assms(2) by (simp add: node_step_def)
  show ?thesis
    by (rule for_each_invariant [where I = "tinv pre", OF f assms(1)]) (rule tinv_message_step)
qed

lemma tinv_process_stream_updates:
  assumes "preceded pre" and "tracked pre te"
    and "process_stream_updates event run_id thread_id user_input te started done = (ys, s', r)"
  shows "preceded (pre @ filter forwarded (map fst ys))
       \<and> tracked (pre @ filter forwarded (map fst ys)) (us_tool_executions s')"
proof -
  let ?s0 = "\<lparr>us_stream_started = started, us_chat_message = None,
        us_tool_executions = te, us_completed_tools = done\<rparr>"
  have i0: "tinv pre [] ?s0 None" using assms(1,2) by (simp add: tinv_def sent_def)
  have f: "for_each (node_step run_id thread_id user_input) ?s0 event = (ys, s', r)"
    using assms(3) by (simp add: process_stream_updates_def)
  have "tinv pre ([] @ ys) s' r"
    by (rule for_each_invariant [where I = "tinv pre", OF f i0]) (rule tinv_node_step)
  then show ?thesis by (simp add: tinv_def sent_def)
qed

lemma consume_frames:
  "for_each consume_yield g ys = (fs, g', r) \<Longrightarrow>
     fs = filter forwarded (map fst ys) \<and> r = None
     \<and> tool_executions g' = tool_executions g \<and> completed_tools g' = completed_tools g
     \<and> complete_message g' = complete_message g
     \<and> (stream_started g \<longrightarrow> stream_started g')"
proof (induction ys arbitrary: g fs g' r)
  case Nil
  then show ?case by simp
next
  case (Cons y ys)
  obtain f1 g1 r1 where c: "consume_yield g y = (f1, g1, r1)" by (cases "consume_yield g y") auto
  have c1: "f1 = filter forwarded [fst y] \<and> r1 = None
     \<and> tool_executions g1 = tool_executions g \<and> completed_tools g1 = completed_tools g
     \<and> complete_message g1 = complete_message g
     \<and> (stream_started g \<longrightarrow> stream_started g1)"
    using c by (auto simp: consume_yield_def Let_def forwarded_def split: if_splits)
  obtain f2 g2 r2 where f: "for_each consume_yield g1 ys = (f2, g2, r2)"
    by (cases "for_each consume_yield g1 ys") auto
  have eq: "fs = f1 @ f2" "g' = g2" "r = r2" using Cons.prems c f c1 by auto
  show ?case using Cons.IH [OF f] c1 eq by auto
qed

lemma dinv_other:
  assumes "dinv out g r0" and "\<forall>f\<in>set fs. noncomplete f"
    and "tool_executions g' = tool_executions g"
  shows "dinv (out @ fs) g' r"
proof -
  have "preceded (out @ fs)" using assms(1,2) by (intro preceded_append_other) (auto simp: dinv_def)
  moreover have "tracked (out @ fs) (tool_executions g')"
    using assms(1,3) by (auto simp: dinv_def intro: tracked_mono [of out "tool_executions g"])
  ultimately show ?thesis by (simp add: dinv_def)
qed

lemma dinv_updates_branch:
  assumes "dinv out g None" and "updates_branch run_id thread_id user_input g event = (fs, g', r)"
  shows "dinv (out @ fs) g' r"
proof -
  obtain ys s raised where p: "process_stream_updates event run_id thread_id user_input
      (tool_executions g) (stream_started g) (completed_tools g) = (ys, s, raised)"
    by (cases "process_stream_updates event run_id thread_id user_input
      (tool_executions g) (stream_started g) (completed_tools g)") auto
  obtain frames g1 x where c: "for_each consume_yield g ys = (frames, g1, x)"
    by (cases "for_each consume_yield g ys") auto
  have fs: "fs = frames" and g': "tool_executions g' = us_tool_executions s"
    using assms(2) p c by (auto simp: updates_branch_def)
  have frames: "frames = filter forwarded (map fst ys)" using consume_frames [OF c] by simp
  have "preceded (out @ filter forwarded (map fst ys))
       \<and> tracked (out @ filter forwarded (map fst ys)) (us_tool_executions s)"
    using assms(1) by (intro tinv_process_stream_updates [OF _ _ p]) (auto simp: dinv_def)
  then show ?thesis by (simp add: dinv_def fs frames g')
qed

lemma dinv_messages_branch:
  assumes "dinv out g None" and "messages_branch g msg tags = (fs, g', r)"
  shows "dinv (out @ fs) g' r"
proof -
  have "(\<forall>f\<in>set fs. noncomplete f) \<and> tool_executions g' = tool_executions g"
    using assms(2)
    by (auto simp: messages_branch_def Let_def noncomplete_frames
          split: if_splits chunk.splits sum.splits content.splits)
  then show ?thesis by (intro dinv_other [OF assms(1)]) auto
qed

lemma dinv_custom_branch:
  assumes "dinv out g None" and "custom_branch g ev = (fs, g', r)"
    and "custom_not_complete (CustomEvent ev)"
  shows "dinv (out @ fs) g' r"
proof -
  have "(\<forall>f\<in>set fs. noncomplete f) \<and> tool_executions g' = tool_executions g"
    using assms(2,3)
    by (auto simp: custom_branch_def Let_def noncomplete_frames custom_not_complete_def
          split: if_splits custom_event.splits)
  then show ?thesis by (intro dinv_other [OF assms(1)]) auto
qed

lemma dinv_stream_step:
  assumes "dinv out g None" and "stream_step run_id thread_id user_input g ev = (fs, g', r)"
    and "custom_not_complete ev"
  shows "dinv (out @ fs) g' r"
proof (cases ev)
  case NotATuple
  then show ?thesis using assms(1,2) by (auto simp: stream_step_def dinv_def)
next
  case (UpdatesEvent event)
  then show ?thesis using assms(2) dinv_updates_branch [OF assms(1)] by (simp add: stream_step_def)
next
  case (MessagesEvent msg tags)
  then show ?thesis using assms(2) dinv_messages_branch [OF assms(1)] by (simp add: stream_step_def)
next
  case (CustomEvent c)
  then show ?thesis using assms(2,3) dinv_custom_branch [OF assms(1)] by (simp add: stream_step_def)
next
  case OtherMode
  then show ?thesis using assms(1,2) by (auto simp: stream_step_def dinv_def)
qed

lemma dinv_events:
  assumes "for_each (stream_step run_id thread_id user_input) initial_state events = (fs, g, r)"
    and "\<forall>ev\<in>set events. custom_not_complete ev"
  shows "dinv fs g r"
proof -
  have i0: "dinv [] initial_state None"
    by (simp add: dinv_def preceded_Nil tracked_def initial_state_def)
  have "dinv ([] @ fs) g r"
    by (rule for_each_invariant [where I = dinv, OF assms(1) i0])
       (use assms(2) in \<open>auto intro: dinv_stream_step\<close>)
  then show ?thesis by simp
qed

lemma preceded_message_generator:
  assumes "\<forall>ev\<in>set events. custom_not_complete ev"
  shows "preceded (message_generator user_input thread_id run_id events ending)"
proof -
  obtain fs g r where f: "for_each (stream_step run_id thread_id user_input) initial_state events
      = (fs, g, r)"
    by (cases "for_each (stream_step run_id thread_id user_input) initial_state events") auto
  have p: "preceded fs" using dinv_events [OF f assms] by (simp add: dinv_def)
  have x: "\<forall>f\<in>set (except_frames g e @ finally_frames g thread_id). noncomplete f" for e
    by (auto simp: except_frames_def finally_frames_def noncomplete_frames)
  have y: "\<forall>f\<in>set (finally_frames g thread_id). noncomplete f"
    by (auto simp: finally_frames_def noncomplete_frames)
  show ?thesis
    using f preceded_append_other [OF p x] preceded_append_other [OF p y]
    by (auto simp: message_generator_def split: option.splits source_end.splits)
qed

subsection \<open>One entry for each call identifier\<close>

lemma ukeys_tool_call_step:
  "ukeys acc s None \<Longrightarrow> tool_call_step s tc = (ys, s', r) \<Longrightarrow> ukeys (acc @ ys) s' r"
  by (auto simp: ukeys_def tool_call_step_def distinct_update split: option.splits)

lemma ukeys_try_message:
  assumes "ukeys acc s None" and "try_message run_id thread_id user_input s m = (ys, s', r)"
  shows "ukeys (acc @ ys) s' r"
proof (cases "langchain_to_chat_message m")
  case (Inl e)
  then show ?thesis using assms by (auto simp: try_message_def ukeys_def)
next
  case (Inr cv)
  define s1 where "s1 = s\<lparr>us_chat_message :=
      Some (cv\<lparr>cm_run_id := Some run_id, cm_thread_id := Some thread_id\<rparr>)\<rparr>"
  have i1: "ukeys acc s1 None" using assms(1) by (simp add: s1_def ukeys_def)
  show ?thesis
  proof (cases "\<not> (cm_type cv = ''human'' \<and> cm_content cv = user_input) \<and> cm_tool_calls cv \<noteq> []")
    case True
    then have f: "for_each tool_call_step s1 (cm_tool_calls cv) = (ys, s', r)"
      using assms(2) Inr by (auto simp: try_message_def Let_def s1_def)
    show ?thesis
      by (rule for_each_invariant [where I = ukeys, OF f i1]) (rule ukeys_tool_call_step)
  next
    case False
    then show ?thesis using assms Inr
      by (auto simp: try_message_def Let_def ukeys_def distinct_delete
            split: if_splits option.splits)
  qed
qed

lemma ukeys_message_step:
  assumes "ukeys acc s None" and "message_step run_id thread_id user_input s m = (ys, s', r)"
  shows "ukeys (acc @ ys) s' r"
proof -
  obtain ys1 s1 r1 where t: "try_message run_id thread_id user_input s m = (ys1, s1, r1)"
    by (cases "try_message run_id thread_id user_input s m") auto
  have i1: "distinct (map fst (us_tool_executions s1))"
    using ukeys_try_message [OF assms(1) t] by (simp add: ukeys_def)
  show ?thesis using assms(2) t i1
    by (auto simp: message_step_def except_message_def Let_def ukeys_def distinct_delete
          split: option.splits if_splits)
qed

lemma ukeys_node_step:
  assumes "ukeys acc s None" and "node_step run_id thread_id user_input s u = (ys, s', r)"
  shows "ukeys (acc @ ys) s' r"
proof (cases u)
  case (Interrupts cs)
  then have f: "for_each interrupt_step s cs = (ys, s', r)" using assms(2) by (simp add: node_step_def)
  show ?thesis
    by (rule for_each_invariant [where I = ukeys, OF f assms(1)])
       (auto simp: interrupt_step_def interrupt_content_def ukeys_def split: if_splits)
next
  case (NodeMessages ms)
  then have f: "for_each (message_step run_id thread_id user_input) s ms = (ys, s', r)"
    using assms(2) by (simp add: node_step_def)
  show ?thesis
    by (rule for_each_invariant [where I = ukeys, OF f assms(1)]) (rule ukeys_message_step)
qed

lemma distinct_process_stream_updates:
  assumes "distinct (map fst te)"
    and "process_stream_updates event run_id thread_id user_input te started done = (ys, s', r)"
  shows "distinct (map fst (us_tool_executions s'))"
proof -
  let ?s0 = "\<lparr>us_stream_started = started, us_chat_message = None,
        us_tool_executions = te, us_completed_tools = done\<rparr>"
  have i0: "ukeys [] ?s0 None" using assms(1) by (simp add: ukeys_def)
  have f: "for_each (node_step run_id thread_id user_input) ?s0 event = (ys, s', r)"
    using assms(2) by (simp add: process_stream_updates_def)
  have "ukeys ([] @ ys) s' r"
    by (rule for_each_invariant [where I = ukeys, OF f i0]) (rule ukeys_node_step)
  then show ?thesis by (simp add: ukeys_def)
qed

lemma dkeys_stream_step:
  assumes "dkeys out g None" and "stream_step run_id thread_id user_input g ev = (fs, g', r)"
  shows "dkeys (out @ fs) g' r"
proof (cases ev)
  case (UpdatesEvent event)
  obtain ys s raised where p: "process_stream_updates event run_id thread_id user_input
      (tool_executions g) (stream_started g) (completed_tools g) = (ys, s, raised)"
    by (cases "process_stream_updates event run_id thread_id user_input
      (tool_executions g) (stream_started g) (completed_tools g)") auto
  obtain frames g1 x where c: "for_each consume_yield g ys = (frames, g1, x)"
    by (cases "for_each consume_yield g ys") auto
  have "tool_executions g' = us_tool_executions s"
    using assms(2) UpdatesEvent p c by (auto simp: stream_step_def updates_branch_def)
  moreover have "distinct (map fst (us_tool_executions s))"
    using assms(1) by (intro distinct_process_stream_updates [OF _ p]) (simp add: dkeys_def)
  ultimately show ?thesis by (simp add: dkeys_def)
next
  case (MessagesEvent msg tags)
  then show ?thesis using assms
    by (auto simp: stream_step_def messages_branch_def Let_def dkeys_def
          split: if_splits chunk.splits sum.splits content.splits)
next
  case (CustomEvent c)
  then show ?thesis using assms
    by (auto simp: stream_step_def custom_branch_def Let_def dkeys_def
          split: if_splits custom_event.splits)
qed (use assms in \<open>auto simp: stream_step_def dkeys_def\<close>)

lemma distinct_run_state:
  "distinct (map fst (tool_executions (run_state user_input thread_id run_id events)))"
proof -
  obtain fs g r where f: "for_each (stream_step run_id thread_id user_input) initial_state events
      = (fs, g, r)"
    by (cases "for_each (stream_step run_id thread_id user_input) initial_state events") auto
  have i0: "dkeys [] initial_state None" by (simp add: dkeys_def initial_state_def)
  have "dkeys ([] @ fs) g r"
    by (rule for_each_invariant [where I = dkeys, OF f i0]) (rule dkeys_stream_step)
  then show ?thesis using f by (simp add: dkeys_def run_state_def)
qed

lemma tool_message_step:
  "message_step run_id thread_id user_input s (ToolMessage c call_id) =
     (case map_of (us_tool_executions s) (Some call_id) of
        None \<Rightarrow> []
      | Some tool_info \<Rightarrow>
          [(tool_execution_complete_frame (fst tool_info) (snd tool_info), us_stream_started s)],
      s\<lparr>us_chat_message := Some ((new_chat_message ''tool'' (convert_message_content_to_string c))
            \<lparr>cm_tool_call_id := Some call_id, cm_run_id := Some run_id,
             cm_thread_id := Some thread_id\<rparr>),
        us_tool_executions := AList.delete (Some call_id) (us_tool_executions s),
        us_completed_tools := us_completed_tools s @
           (case map_of (us_tool_executions s) (Some call_id) of None \<Rightarrow> []
            | Some tool_info \<Rightarrow> [fst tool_info])\<rparr>,
      None)"
proof (cases "map_of (us_tool_executions s) (Some call_id)")
  case None
  then have "Some call_id \<notin> fst ` set (us_tool_executions s)" by (simp add: map_of_eq_None_iff)
  then have "AList.delete (Some call_id) (us_tool_executions s) = us_tool_executions s" by simp
  then show ?thesis using None
    by (simp add: message_step_def try_message_def Let_def new_chat_message_def)
next
  case (Some info)
  then show ?thesis
    by (simp add: message_step_def try_message_def Let_def new_chat_message_def)
qed

lemma tool_call_message_step:
  "message_step run_id thread_id user_input s
       (AIMessage c [ToolCall (Some n) (Some a) (Some k)]) =
     ([(tool_execution_start_frame n a, us_stream_started s)],
      s\<lparr>us_chat_message := Some ((new_chat_message ''ai'' (convert_message_content_to_string c))
            \<lparr>cm_tool_calls := [ToolCall (Some n) (Some a) (Some k)], cm_run_id := Some run_id,
             cm_thread_id := Some thread_id\<rparr>),
        us_tool_executions := AList.update k (n, a) (us_tool_executions s)\<rparr>,
      None)"
  by (simp add: message_step_def try_message_def tool_call_step_def Let_def new_chat_message_def)

text \<open>
  C7. The claim ends: every \<^verbatim>\<open>tool_execution_complete\<close> frame is preceded in the same
  run by the \<^verbatim>\<open>tool_execution_start\<close> frame of its call. The driver passes every custom
  event on with the type the event names (lines 573-575): a custom event of the type
  \<^verbatim>\<open>tool_execution_complete\<close> is sent as a completion frame, with no start frame before
  it and no entry in the tracker.
\<close>

theorem completion_frame_from_custom_event:
  "message_generator ''hi'' ''t1'' ''r1''
     [CustomEvent (CustomData ''tool_execution_complete''
        (JObj [(''name'', JStr ''get_weather''), (''params'', JObj [])]))] Exhausted =
     [tool_execution_complete_frame (JStr ''get_weather'') (JObj [])]
   \<and> tool_execution_start_frame (JStr ''get_weather'') (JObj [])
       \<notin> set (message_generator ''hi'' ''t1'' ''r1''
           [CustomEvent (CustomData ''tool_execution_complete''
              (JObj [(''name'', JStr ''get_weather''), (''params'', JObj [])]))] Exhausted)"
  by (simp add: driver_defs frame_defs)

text \<open>
  C7, as amended. In every run the tracker holds at most one pending entry for a call
  identifier. A tool call with a name, arguments and an identifier yields the
  \<^verbatim>\<open>tool_execution_start\<close> frame and records the name and the arguments under the
  identifier, whatever the tracker held. For a tool-result message the translator yields a
  \<^verbatim>\<open>tool_execution_complete\<close> frame exactly when the tracker has an entry for the
  message's call identifier; the frame carries the recorded name and arguments and the
  entry is removed; without an entry nothing is yielded, and in both cases no exception is
  raised. So the result of a call that was started yields the completion frame with the
  name and arguments of its start. In a run whose custom events are not themselves
  \<^verbatim>\<open>tool_execution_complete\<close> frames, every such frame sent to the client comes after
  the \<^verbatim>\<open>tool_execution_start\<close> frame with the same name and arguments.
\<close>

theorem tool_call_tracker:
  "distinct (map fst (tool_executions (run_state user_input thread_id run_id events)))
   \<and> fst (message_step run_id thread_id user_input s
            (AIMessage c0 [ToolCall (Some n0) (Some a0) (Some k0)])) =
       [(tool_execution_start_frame n0 a0, us_stream_started s)]
   \<and> map_of (us_tool_executions (fst (snd (message_step run_id thread_id user_input s
            (AIMessage c0 [ToolCall (Some n0) (Some a0) (Some k0)]))))) k0 = Some (n0, a0)
   \<and> snd (snd (message_step run_id thread_id user_input s
            (AIMessage c0 [ToolCall (Some n0) (Some a0) (Some k0)]))) = None
   \<and> fst (message_step run_id thread_id user_input s (ToolMessage c call_id)) =
       (case map_of (us_tool_executions s) (Some call_id) of
          None \<Rightarrow> []
        | Some tool_info \<Rightarrow>
            [(tool_execution_complete_frame (fst tool_info) (snd tool_info),
              us_stream_started s)])
   \<and> us_tool_executions (fst (snd (message_step run_id thread_id user_input s
         (ToolMessage c call_id)))) = AList.delete (Some call_id) (us_tool_executions s)
   \<and> snd (snd (message_step run_id thread_id user_input s (ToolMessage c call_id))) = None
   \<and> fst (message_step run_id thread_id user_input
            (fst (snd (message_step run_id thread_id user_input s
               (AIMessage c0 [ToolCall (Some n0) (Some a0) (Some (Some call_id))]))))
            (ToolMessage c call_id)) =
       [(tool_execution_complete_frame n0 a0, us_stream_started s)]
   \<and> ((\<forall>t d. CustomEvent (CustomData t d) \<in> set events \<longrightarrow>
          (\<forall>n p. create_sse_data \<lparr>sse_type = t, sse_content = d\<rparr>
                   \<noteq> tool_execution_complete_frame n p))
        \<longrightarrow> (\<forall>j < length (message_generator user_input thread_id run_id events ending).
               \<forall>n p. message_generator user_input thread_id run_id events ending ! j
                        = tool_execution_complete_frame n p
                 \<longrightarrow> (\<exists>i<j. message_generator user_input thread_id run_id events ending ! i
                        = tool_execution_start_frame n p)))"
proof -
  have "preceded (message_generator user_input thread_id run_id events ending)"
    if "\<forall>t d. CustomEvent (CustomData t d) \<in> set events \<longrightarrow>
          (\<forall>n p. create_sse_data \<lparr>sse_type = t, sse_content = d\<rparr>
                   \<noteq> tool_execution_complete_frame n p)"
  proof (rule preceded_message_generator)
    show "\<forall>ev\<in>set events. custom_not_complete ev"
      using that by (auto simp: custom_not_complete_def noncomplete_def)
  qed
  then show ?thesis
    using distinct_run_state [of user_input thread_id run_id events]
    by (simp add: tool_message_step tool_call_message_step update_conv' preceded_def)
qed

theorem tool_call_tracker_witness:
  "message_generator ''weather in Paris'' ''t1'' ''r1''
     [UpdatesEvent [NodeMessages [AIMessage (ContentStr [])
        [ToolCall (Some (JStr ''get_weather'')) (Some (JObj [(''city'', JStr ''Paris'')]))
           (Some (Some ''c1''))]]],
      UpdatesEvent [NodeMessages [ToolMessage (ContentStr ''sunny'') ''c1'']],
      MessagesEvent (AIMessageChunk (ContentStr ''It is sunny'')) []] Exhausted ! 0 =
   tool_execution_start_frame (JStr ''get_weather'') (JObj [(''city'', JStr ''Paris'')])"
proof -
  let ?events = "[UpdatesEvent [NodeMessages [AIMessage (ContentStr [])
        [ToolCall (Some (JStr ''get_weather'')) (Some (JObj [(''city'', JStr ''Paris'')]))
           (Some (Some ''c1''))]]],
      UpdatesEvent [NodeMessages [ToolMessage (ContentStr ''sunny'') ''c1'']],
      MessagesEvent (AIMessageChunk (ContentStr ''It is sunny'')) []]"
  let ?out = "message_generator ''weather in Paris'' ''t1'' ''r1'' ?events Exhausted"
  let ?n = "JStr ''get_weather''" and ?p = "JObj [(''city'', JStr ''Paris'')]"
  have h: "\<forall>t d. CustomEvent (CustomData t d) \<in> set ?events \<longrightarrow>
      (\<forall>n p. create_sse_data \<lparr>sse_type = t, sse_content = d\<rparr>
               \<noteq> tool_execution_complete_frame n p)"
    by simp
  have second: "1 < length ?out \<and> ?out ! 1 = tool_execution_complete_frame ?n ?p"
    by (simp add: driver_defs translator_defs frame_defs sublist_code)
  from tool_call_tracker [where user_input = "''weather in Paris''" and thread_id = "''t1''"
      and run_id = "''r1''" and events = ?events and ending = Exhausted] h
  have "\<forall>j < length ?out. \<forall>n p. ?out ! j = tool_execution_complete_frame n p
      \<longrightarrow> (\<exists>i<j. ?out ! i = tool_execution_start_frame n p)"
    by blast
  with second obtain i where "i < 1" "?out ! i = tool_execution_start_frame ?n ?p" by blast
  then show ?thesis by simp
qed

section \<open>The \<^verbatim>\<open>stream_start\<close> frame\<close>

lemma token_or_error_frames:
  "token_or_error (stream_token_frame x)"
  "token_or_error (error_frame x)"
  "\<not> token_or_error stream_start_frame"
proof -
  show "token_or_error (stream_token_frame x)"
    by (simp add: token_or_error_def stream_token_frame_def create_sse_data_def)
  show "token_or_error (error_frame x)"
    by (simp add: token_or_error_def error_frame_def create_sse_data_def)
  show "\<not> token_or_error stream_start_frame"
    by (simp add: token_or_error_def stream_start_frame_def create_sse_data_def)
qed

lemma not_start_frames:
  "stream_token_frame x \<noteq> stream_start_frame"
  "error_frame x \<noteq> stream_start_frame"
  "stream_end_frame x \<noteq> stream_start_frame"
proof -
  show "stream_token_frame x \<noteq> stream_start_frame"
    by (simp add: stream_token_frame_def stream_start_frame_def create_sse_data_def)
  show "error_frame x \<noteq> stream_start_frame"
    by (simp add: error_frame_def stream_start_frame_def create_sse_data_def)
  show "stream_end_frame x \<noteq> stream_start_frame"
    by (simp add: stream_end_frame_def stream_start_frame_def create_sse_data_def)
qed

lemma shape_updates_branch:
  assumes "updates_branch run_id thread_id user_input g event = (fs, g', r)"
  shows "step_shape g fs g' r"
proof -
  obtain ys s raised where p: "process_stream_updates event run_id thread_id user_input
      (tool_executions g) (stream_started g) (completed_tools g) = (ys, s, raised)"
    by (cases "process_stream_updates event run_id thread_id user_input
      (tool_executions g) (stream_started g) (completed_tools g)") auto
  obtain frames g1 x where c: "for_each consume_yield g ys = (frames, g1, x)"
    by (cases "for_each consume_yield g ys") auto
  have fs: "fs = frames" and g': "stream_started g' = stream_started g1"
    using assms p c by (auto simp: updates_branch_def)
  have "frames = filter forwarded (map fst ys)" "stream_started g \<longrightarrow> stream_started g1"
    using consume_frames [OF c] by auto
  then have "stream_start_frame \<notin> set fs \<and> (stream_started g \<longrightarrow> stream_started g')"
    using fs g' not_forwarded_stream_start by auto
  then show ?thesis by (simp add: step_shape_def)
qed

lemma shape_messages_branch:
  assumes "messages_branch g msg tags = (fs, g', r)"
  shows "step_shape g fs g' r"
  using assms
  by (auto simp: messages_branch_def Let_def step_shape_def token_or_error_frames not_start_frames not_start_frames [symmetric]
        split: if_splits chunk.splits sum.splits content.splits)

lemma shape_custom_branch:
  assumes "custom_branch g ev = (fs, g', r)"
    and "\<forall>t d. ev = CustomData t d \<longrightarrow>
           create_sse_data \<lparr>sse_type = t, sse_content = d\<rparr> \<noteq> stream_start_frame"
  shows "step_shape g fs g' r"
  using assms
  by (auto simp: custom_branch_def Let_def step_shape_def token_or_error_frames not_start_frames not_start_frames [symmetric]
        split: if_splits custom_event.splits)

lemma shape_stream_step:
  assumes "stream_step run_id thread_id user_input g ev = (fs, g', r)" and "custom_not_start ev"
  shows "step_shape g fs g' r"
proof (cases ev)
  case (UpdatesEvent event)
  then show ?thesis using assms(1) shape_updates_branch by (simp add: stream_step_def)
next
  case (MessagesEvent msg tags)
  then show ?thesis using assms(1) shape_messages_branch by (simp add: stream_step_def)
next
  case (CustomEvent c)
  then have "custom_branch g c = (fs, g', r)" using assms(1) by (simp add: stream_step_def)
  then show ?thesis using assms(2) CustomEvent
    by (intro shape_custom_branch) (auto simp: custom_not_start_def)
qed (use assms(1) in \<open>auto simp: stream_step_def step_shape_def\<close>)

lemma for_each_append:
  "for_each body s (xs @ ys) =
     (case for_each body s xs of
        (a, s', Some e) \<Rightarrow> (a, s', Some e)
      | (a, s', None) \<Rightarrow> (case for_each body s' ys of (b, s'', r) \<Rightarrow> (a @ b, s'', r)))"
  by (induction xs arbitrary: s) (auto split: prod.splits option.splits)

lemma tool_frame_start: "tool_frame (tool_execution_start_frame n p)"
  by (auto simp: tool_frame_def)

lemma tool_frame_complete: "tool_frame (tool_execution_complete_frame n p)"
  by (auto simp: tool_frame_def)

lemma tool_frame_forwarded: "tool_frame f \<Longrightarrow> forwarded f"
  by (auto simp: tool_frame_def forwarded_start forwarded_complete)

lemma tool_frame_not_start: "tool_frame f \<Longrightarrow> f \<noteq> stream_start_frame"
  using not_forwarded_stream_start tool_frame_forwarded by blast

lemma tool_frame_not_end: "tool_frame f \<Longrightarrow> f \<noteq> stream_end_frame t"
  by (auto simp: tool_frame_def tool_execution_start_frame_def tool_execution_complete_frame_def
        stream_end_frame_def create_sse_data_def)

lemma qinv_tool_call_step:
  assumes "qinv b acc s None" and "complete_call tc" and "tool_call_step s tc = (ys, s', r)"
  shows "qinv b (acc @ ys) s' r"
  using assms
  by (auto simp: qinv_def complete_call_def tool_call_step_def tool_frame_start
        split: option.splits)

lemma qinv_try_message:
  assumes "qinv b acc s None" and "quiet_message user_input m"
    and "try_message run_id thread_id user_input s m = (ys, s', r)"
  shows "qinv b (acc @ ys) s' r"
proof (cases m)
  case (HumanMessage c)
  then show ?thesis using assms
    by (auto simp: qinv_def try_message_def Let_def new_chat_message_def split: if_splits)
next
  case (AIMessage c tcs)
  show ?thesis
  proof (cases "tcs = []")
    case True
    then show ?thesis using assms AIMessage
      by (auto simp: qinv_def try_message_def Let_def new_chat_message_def split: if_splits)
  next
    case False
    define s1 where "s1 = s\<lparr>us_chat_message :=
      Some ((new_chat_message ''ai'' (convert_message_content_to_string c))
         \<lparr>cm_tool_calls := tcs, cm_run_id := Some run_id, cm_thread_id := Some thread_id\<rparr>)\<rparr>"
    have i1: "qinv b acc s1 None" using assms(1) by (simp add: qinv_def s1_def)
    have f: "for_each tool_call_step s1 tcs = (ys, s', r)"
      using assms(3) AIMessage False
      by (simp add: try_message_def Let_def new_chat_message_def s1_def)
    have all: "\<forall>tc\<in>set tcs. complete_call tc"
      using assms(2) AIMessage False by (simp add: list_all_iff)
    show ?thesis
      by (rule for_each_invariant [where I = "qinv b", OF f i1])
         (use all in \<open>auto intro: qinv_tool_call_step\<close>)
  qed
next
  case (ToolMessage c k)
  then show ?thesis using assms
    by (auto simp: qinv_def try_message_def Let_def new_chat_message_def tool_frame_complete
          split: if_splits option.splits)
next
  case (OtherMessage cls)
  then show ?thesis using assms by simp
qed

lemma qinv_message_step:
  assumes "qinv b acc s None" and "quiet_message user_input m"
    and "message_step run_id thread_id user_input s m = (ys, s', r)"
  shows "qinv b (acc @ ys) s' r"
proof -
  obtain ys1 s1 r1 where t: "try_message run_id thread_id user_input s m = (ys1, s1, r1)"
    by (cases "try_message run_id thread_id user_input s m") auto
  have q: "qinv b (acc @ ys1) s1 r1" by (rule qinv_try_message [OF assms(1,2) t])
  then have "r1 = None" by (simp add: qinv_def)
  then have "ys = ys1" "s' = s1" "r = r1" using assms(3) t by (auto simp: message_step_def)
  then show ?thesis using q by simp
qed

lemma qinv_node_step:
  assumes "qinv b acc s None" and "quiet_update user_input u"
    and "node_step run_id thread_id user_input s u = (ys, s', r)"
  shows "qinv b (acc @ ys) s' r"
proof (cases u)
  case (Interrupts interrupts)
  then show ?thesis using assms by (auto simp: node_step_def)
next
  case (NodeMessages ms)
  then have f: "for_each (message_step run_id thread_id user_input) s ms = (ys, s', r)"
    using assms(3) by (simp add: node_step_def)
  have all: "\<forall>m\<in>set ms. quiet_message user_input m"
    using assms(2) NodeMessages by (simp add: list_all_iff)
  show ?thesis
    by (rule for_each_invariant [where I = "qinv b", OF f assms(1)])
       (use all in \<open>auto intro: qinv_message_step\<close>)
qed

lemma quiet_process_stream_updates:
  assumes "list_all (quiet_update user_input) event"
    and "process_stream_updates event run_id thread_id user_input te started done = (ys, s', r)"
  shows "r = None \<and> us_stream_started s' = started \<and> (\<forall>y\<in>set ys. tool_frame (fst y))"
proof -
  let ?s0 = "\<lparr>us_stream_started = started, us_chat_message = None,
        us_tool_executions = te, us_completed_tools = done\<rparr>"
  have i0: "qinv started [] ?s0 None" by (simp add: qinv_def)
  have f: "for_each (node_step run_id thread_id user_input) ?s0 event = (ys, s', r)"
    using assms(2) by (simp add: process_stream_updates_def)
  have all: "\<forall>u\<in>set event. quiet_update user_input u" using assms(1) by (simp add: list_all_iff)
  have "qinv started ([] @ ys) s' r"
    by (rule for_each_invariant [where I = "qinv started", OF f i0])
       (use all in \<open>auto intro: qinv_node_step\<close>)
  then show ?thesis by (simp add: qinv_def)
qed

lemma consume_forwarded:
  "\<forall>y\<in>set ys. forwarded (fst y) \<Longrightarrow> for_each consume_yield g ys = (map fst ys, g, None)"
  by (induction ys) (auto simp: consume_yield_def Let_def forwarded_def)

lemma quiet_stream_step:
  assumes "quiet user_input ev"
    and "stream_step run_id thread_id user_input g ev = (fs, g', r)"
  shows "r = None \<and> stream_started g' = stream_started g \<and> (\<forall>f\<in>set fs. tool_frame f)"
proof (cases ev)
  case (UpdatesEvent event)
  obtain ys s raised where p: "process_stream_updates event run_id thread_id user_input
      (tool_executions g) (stream_started g) (completed_tools g) = (ys, s, raised)"
    by (cases "process_stream_updates event run_id thread_id user_input
      (tool_executions g) (stream_started g) (completed_tools g)") auto
  have q: "raised = None \<and> (\<forall>y\<in>set ys. tool_frame (fst y))"
    using quiet_process_stream_updates [OF _ p] assms(1) UpdatesEvent by simp
  then have c: "for_each consume_yield g ys = (map fst ys, g, None)"
    by (intro consume_forwarded) (auto intro: tool_frame_forwarded)
  show ?thesis using assms(2) UpdatesEvent p c q
    by (auto simp: stream_step_def updates_branch_def)
next
  case (MessagesEvent msg tags)
  then show ?thesis using assms
    by (auto simp: stream_step_def messages_branch_def split: chunk.splits if_splits)
qed (use assms in \<open>auto simp: stream_step_def\<close>)

lemma quiet_events:
  assumes "\<forall>ev\<in>set events. quiet user_input ev"
    and "for_each (stream_step run_id thread_id user_input) g events = (fs, g', r)"
  shows "r = None \<and> stream_started g' = stream_started g \<and> (\<forall>f\<in>set fs. tool_frame f)"
proof -
  have i0: "qdinv (stream_started g) [] g None" by (simp add: qdinv_def)
  have "qdinv (stream_started g) ([] @ fs) g' r"
  proof (rule for_each_invariant [where I = "qdinv (stream_started g)", OF assms(2) i0])
    fix acc s x ys s' r
    assume a: "qdinv (stream_started g) acc s None" "x \<in> set events"
      "stream_step run_id thread_id user_input s x = (ys, s', r)"
    then have "quiet user_input x" using assms(1) by simp
    from quiet_stream_step [OF this a(3)] a(1)
    show "qdinv (stream_started g) (acc @ ys) s' r" by (auto simp: qdinv_def)
  qed
  then show ?thesis by (simp add: qdinv_def)
qed

lemma opening_stream_step:
  assumes "opening_frame ev = Some f" and "\<not> stream_started g"
  shows "\<exists>g'. stream_step run_id thread_id user_input g ev = ([stream_start_frame, f], g', None)
           \<and> stream_started g'"
proof (cases ev)
  case (MessagesEvent msg tags)
  then show ?thesis using assms
    by (auto simp: stream_step_def messages_branch_def remove_tool_calls_def Let_def
          convert_message_content_to_string_def
          split: chunk.splits content.splits if_splits)
next
  case (CustomEvent c)
  then show ?thesis using assms
    by (auto simp: stream_step_def custom_branch_def Let_def split: custom_event.splits)
qed (use assms in auto)

lemma opening_frame_not_start: "opening_frame ev = Some f \<Longrightarrow> f \<noteq> stream_start_frame"
  by (cases ev) (auto simp: not_start_frames split: chunk.splits content.splits if_splits
       custom_event.splits)

lemma started_events:
  assumes "stream_started g" and "\<forall>ev\<in>set events. custom_not_start ev"
    and "for_each (stream_step run_id thread_id user_input) g events = (fs, g', r)"
  shows "stream_started g' \<and> stream_start_frame \<notin> set fs"
proof -
  have i0: "oinv [] g None" using assms(1) by (simp add: oinv_def)
  have "oinv ([] @ fs) g' r"
  proof (rule for_each_invariant [where I = oinv, OF assms(3) i0])
    fix acc s x ys s' r
    assume a: "oinv acc s None" "x \<in> set events"
      "stream_step run_id thread_id user_input s x = (ys, s', r)"
    then have "custom_not_start x" using assms(2) by simp
    from shape_stream_step [OF a(3) this] a(1)
    show "oinv (acc @ ys) s' r" by (auto simp: oinv_def step_shape_def)
  qed
  then show ?thesis by (simp add: oinv_def)
qed

lemma quiet_prefix_run:
  assumes "\<forall>ev\<in>set events. quiet user_input ev"
  shows "\<exists>g. for_each (stream_step run_id thread_id user_input) initial_state events
             = (message_generator user_input thread_id run_id events Exhausted, g, None)
           \<and> \<not> stream_started g
           \<and> (\<forall>x\<in>set (message_generator user_input thread_id run_id events Exhausted). tool_frame x)"
proof -
  obtain fs g r where f: "for_each (stream_step run_id thread_id user_input) initial_state events
      = (fs, g, r)"
    by (cases "for_each (stream_step run_id thread_id user_input) initial_state events") auto
  have q: "r = None" "\<not> stream_started g" "\<forall>x\<in>set fs. tool_frame x"
    using quiet_events [OF assms f] by (simp_all add: initial_state_def)
  then have "message_generator user_input thread_id run_id events Exhausted = fs"
    using f by (simp add: message_generator_def finally_frames_def)
  then show ?thesis using f q by auto
qed

lemma quiet_run:
  assumes "\<forall>ev\<in>set events. quiet user_input ev" and "\<forall>e. ending \<noteq> Raises e"
  shows "message_generator user_input thread_id run_id events ending =
           message_generator user_input thread_id run_id events Exhausted"
proof -
  obtain g where "for_each (stream_step run_id thread_id user_input) initial_state events
             = (message_generator user_input thread_id run_id events Exhausted, g, None)"
    and "\<not> stream_started g"
    using quiet_prefix_run [OF assms(1)] by blast
  then show ?thesis using assms(2)
    by (cases ending) (simp_all add: message_generator_def finally_frames_def)
qed

lemma opened_run:
  assumes "\<forall>ev\<in>set pre. quiet user_input ev" and "opening_frame ev = Some f"
    and "\<forall>x\<in>set post. custom_not_start x"
  shows "\<exists>rest. message_generator user_input thread_id run_id (pre @ ev # post) ending =
            message_generator user_input thread_id run_id pre Exhausted
              @ stream_start_frame # f # rest @ [stream_end_frame thread_id]
          \<and> stream_start_frame \<notin> set rest"
proof -
  let ?step = "stream_step run_id thread_id user_input"
  define tools where "tools = message_generator user_input thread_id run_id pre Exhausted"
  obtain g1 where f1: "for_each ?step initial_state pre = (tools, g1, None)"
    and n1: "\<not> stream_started g1"
    using quiet_prefix_run [OF assms(1)] unfolding tools_def by blast
  obtain g2 where f2: "?step g1 ev = ([stream_start_frame, f], g2, None)" and s2: "stream_started g2"
    using opening_stream_step [OF assms(2) n1] by blast
  obtain fs3 g3 r3 where f3: "for_each ?step g2 post = (fs3, g3, r3)"
    by (cases "for_each ?step g2 post") auto
  have s3: "stream_started g3" and n3: "stream_start_frame \<notin> set fs3"
    using started_events [OF s2 assms(3) f3] by auto
  have all: "for_each ?step initial_state (pre @ ev # post) =
      (tools @ stream_start_frame # f # fs3, g3, r3)"
    by (simp add: for_each_append f1 f2 f3)
  have err: "stream_start_frame \<notin> set (fs3 @ [error_frame (str_exn e)])" for e
    using n3 by (simp add: not_start_frames [symmetric])
  have "\<exists>rest. message_generator user_input thread_id run_id (pre @ ev # post) ending =
            tools @ stream_start_frame # f # rest @ [stream_end_frame thread_id]
          \<and> stream_start_frame \<notin> set rest"
  proof (cases r3)
    case (Some e)
    have "message_generator user_input thread_id run_id (pre @ ev # post) ending =
        tools @ stream_start_frame # f # (fs3 @ [error_frame (str_exn e)]) @ [stream_end_frame thread_id]"
      using all Some s3 by (simp add: message_generator_def except_frames_def finally_frames_def)
    then show ?thesis using err by blast
  next
    case None
    show ?thesis
    proof (cases ending)
      case (Raises e)
      have "message_generator user_input thread_id run_id (pre @ ev # post) ending =
          tools @ stream_start_frame # f # (fs3 @ [error_frame (str_exn e)]) @ [stream_end_frame thread_id]"
        using all None Raises s3
        by (simp add: message_generator_def except_frames_def finally_frames_def)
      then show ?thesis using err by blast
    next
      case Exhausted
      have "message_generator user_input thread_id run_id (pre @ ev # post) ending =
          tools @ stream_start_frame # f # fs3 @ [stream_end_frame thread_id]"
        using all None Exhausted s3 by (simp add: message_generator_def finally_frames_def)
      then show ?thesis using n3 by blast
    next
      case Cancelled
      have "message_generator user_input thread_id run_id (pre @ ev # post) ending =
          tools @ stream_start_frame # f # fs3 @ [stream_end_frame thread_id]"
        using all None Cancelled s3 by (simp add: message_generator_def finally_frames_def)
      then show ?thesis using n3 by blast
    qed
  qed
  then show ?thesis unfolding tools_def .
qed

lemma count_start_once:
  assumes "\<forall>x\<in>set tools. tool_frame x" and "f \<noteq> stream_start_frame"
    and "stream_start_frame \<notin> set rest"
  shows "count_list (tools @ stream_start_frame # f # rest @ [stream_end_frame t])
           stream_start_frame = 1"
proof -
  have "stream_start_frame \<notin> set tools" using assms(1) tool_frame_not_start by blast
  then have a: "count_list tools stream_start_frame = 0" by (simp add: count_list_0_iff)
  have b: "count_list rest stream_start_frame = 0" using assms(3) by (simp add: count_list_0_iff)
  have c: "stream_end_frame t \<noteq> stream_start_frame" by (rule not_start_frames)
  show ?thesis using a b c assms(2) by simp
qed

text \<open>
  C2. The claim: \<^verbatim>\<open>stream_start\<close> is sent once, immediately before the first frame with
  visible content, a tool start included. In the weather run the two tool frames are sent
  first and \<^verbatim>\<open>stream_start\<close> only before the first token; a run with the tool call alone
  sends the \<^verbatim>\<open>tool_execution_start\<close> frame and no \<^verbatim>\<open>stream_start\<close> at all.
\<close>

theorem tool_start_without_stream_start:
  "message_generator ''weather in Paris'' ''t1'' ''r1''
     [UpdatesEvent [NodeMessages [AIMessage (ContentStr [])
        [ToolCall (Some (JStr ''get_weather'')) (Some (JObj [(''city'', JStr ''Paris'')]))
           (Some (Some ''c1''))]]],
      UpdatesEvent [NodeMessages [ToolMessage (ContentStr ''sunny'') ''c1'']],
      MessagesEvent (AIMessageChunk (ContentStr ''It is sunny'')) []] Exhausted =
     [tool_execution_start_frame (JStr ''get_weather'') (JObj [(''city'', JStr ''Paris'')]),
      tool_execution_complete_frame (JStr ''get_weather'') (JObj [(''city'', JStr ''Paris'')]),
      stream_start_frame, stream_token_frame ''It is sunny'', stream_end_frame ''t1'']
   \<and> message_generator ''weather in Paris'' ''t1'' ''r1''
     [UpdatesEvent [NodeMessages [AIMessage (ContentStr [])
        [ToolCall (Some (JStr ''get_weather'')) (Some (JObj [(''city'', JStr ''Paris'')]))
           (Some (Some ''c1''))]]]] Exhausted =
     [tool_execution_start_frame (JStr ''get_weather'') (JObj [(''city'', JStr ''Paris'')])]"
  by (simp add: driver_defs translator_defs frame_defs sublist_code)

text \<open>
  C2, as amended. Tool frames do not open the stream. Take a run in which the first
  event that is not quiet opens the stream by design (a token of the \<^verbatim>\<open>messages\<close>
  channel or an exception of the \<^verbatim>\<open>custom\<close> channel), and in which no later custom event
  is itself a \<^verbatim>\<open>stream_start\<close> frame. Then \<^verbatim>\<open>stream_start\<close> is sent exactly once: the run
  consists of the tool frames of the quiet events, then \<^verbatim>\<open>stream_start\<close>, immediately
  followed by the token or error frame of the opening event, then the remaining frames,
  and it ends with \<^verbatim>\<open>stream_end\<close>, however the source ends. A run of quiet events whose
  source does not raise sends tool frames only: no \<^verbatim>\<open>stream_start\<close> and no
  \<^verbatim>\<open>stream_end\<close>.
\<close>

theorem stream_start_discipline:
  "((\<forall>ev\<in>set pre. quiet user_input ev) \<and> opening_frame ev = Some f
      \<and> (\<forall>t d. CustomEvent (CustomData t d) \<in> set post \<longrightarrow>
            create_sse_data \<lparr>sse_type = t, sse_content = d\<rparr> \<noteq> stream_start_frame)
    \<longrightarrow> count_list (message_generator user_input thread_id run_id (pre @ ev # post) ending)
          stream_start_frame = 1
      \<and> (\<forall>x\<in>set (message_generator user_input thread_id run_id pre Exhausted). tool_frame x)
      \<and> (\<exists>rest. message_generator user_input thread_id run_id (pre @ ev # post) ending =
            message_generator user_input thread_id run_id pre Exhausted
              @ stream_start_frame # f # rest @ [stream_end_frame thread_id]))
   \<and> ((\<forall>ev\<in>set events. quiet user_input ev) \<and> (\<forall>e. ending \<noteq> Raises e)
    \<longrightarrow> (\<forall>x\<in>set (message_generator user_input thread_id run_id events ending). tool_frame x)
      \<and> stream_start_frame \<notin> set (message_generator user_input thread_id run_id events ending)
      \<and> (\<forall>t. stream_end_frame t
             \<notin> set (message_generator user_input thread_id run_id events ending)))"
proof (intro conjI impI)
  assume h: "(\<forall>ev\<in>set pre. quiet user_input ev) \<and> opening_frame ev = Some f
      \<and> (\<forall>t d. CustomEvent (CustomData t d) \<in> set post \<longrightarrow>
            create_sse_data \<lparr>sse_type = t, sse_content = d\<rparr> \<noteq> stream_start_frame)"
  then have q: "\<forall>ev\<in>set pre. quiet user_input ev" and o: "opening_frame ev = Some f"
    and c: "\<forall>x\<in>set post. custom_not_start x"
    by (auto simp: custom_not_start_def)
  let ?pre = "message_generator user_input thread_id run_id pre Exhausted"
  show tools: "\<forall>x\<in>set ?pre. tool_frame x" using quiet_prefix_run [OF q] by blast
  obtain rest where r: "message_generator user_input thread_id run_id (pre @ ev # post) ending =
      ?pre @ stream_start_frame # f # rest @ [stream_end_frame thread_id]"
    and n: "stream_start_frame \<notin> set rest"
    using opened_run [OF q o c] by blast
  show "\<exists>rest. message_generator user_input thread_id run_id (pre @ ev # post) ending =
      ?pre @ stream_start_frame # f # rest @ [stream_end_frame thread_id]"
    using r by blast
  show "count_list (message_generator user_input thread_id run_id (pre @ ev # post) ending)
      stream_start_frame = 1"
    unfolding r by (rule count_start_once [OF tools opening_frame_not_start [OF o] n])
next
  assume h: "(\<forall>ev\<in>set events. quiet user_input ev) \<and> (\<forall>e. ending \<noteq> Raises e)"
  then have e: "message_generator user_input thread_id run_id events ending =
      message_generator user_input thread_id run_id events Exhausted"
    by (intro quiet_run) auto
  show t: "\<forall>x\<in>set (message_generator user_input thread_id run_id events ending). tool_frame x"
    unfolding e using quiet_prefix_run [of events user_input] h by blast
  show "stream_start_frame \<notin> set (message_generator user_input thread_id run_id events ending)"
    using t tool_frame_not_start by blast
  show "\<forall>t. stream_end_frame t \<notin> set (message_generator user_input thread_id run_id events ending)"
    using t tool_frame_not_end by blast
qed

theorem stream_start_discipline_witness:
  "count_list (message_generator ''weather in Paris'' ''t1'' ''r1''
     [UpdatesEvent [NodeMessages [AIMessage (ContentStr [])
        [ToolCall (Some (JStr ''get_weather'')) (Some (JObj [(''city'', JStr ''Paris'')]))
           (Some (Some ''c1''))]]],
      UpdatesEvent [NodeMessages [ToolMessage (ContentStr ''sunny'') ''c1'']],
      MessagesEvent (AIMessageChunk (ContentStr ''It is sunny'')) []] Exhausted)
     stream_start_frame = 1
   \<and> stream_start_frame \<notin> set (message_generator ''weather in Paris'' ''t1'' ''r1''
     [UpdatesEvent [NodeMessages [AIMessage (ContentStr [])
        [ToolCall (Some (JStr ''get_weather'')) (Some (JObj [(''city'', JStr ''Paris'')]))
           (Some (Some ''c1''))]]]] Cancelled)
   \<and> stream_end_frame ''t1'' \<notin> set (message_generator ''weather in Paris'' ''t1'' ''r1''
     [UpdatesEvent [NodeMessages [AIMessage (ContentStr [])
        [ToolCall (Some (JStr ''get_weather'')) (Some (JObj [(''city'', JStr ''Paris'')]))
           (Some (Some ''c1''))]]]] Cancelled)"
proof -
  let ?call = "UpdatesEvent [NodeMessages [AIMessage (ContentStr [])
        [ToolCall (Some (JStr ''get_weather'')) (Some (JObj [(''city'', JStr ''Paris'')]))
           (Some (Some ''c1''))]]]"
  let ?result = "UpdatesEvent [NodeMessages [ToolMessage (ContentStr ''sunny'') ''c1'']]"
  let ?token = "MessagesEvent (AIMessageChunk (ContentStr ''It is sunny'')) []"
  have q: "\<forall>ev\<in>set [?call, ?result]. quiet ''weather in Paris'' ev"
    by (simp add: complete_call_def)
  have o: "opening_frame ?token = Some (stream_token_frame ''It is sunny'')" by simp
  have c: "\<forall>t d. CustomEvent (CustomData t d) \<in> set [] \<longrightarrow>
      create_sse_data \<lparr>sse_type = t, sse_content = d\<rparr> \<noteq> stream_start_frame"
    by simp
  have q1: "\<forall>ev\<in>set [?call]. quiet ''weather in Paris'' ev" by (simp add: complete_call_def)
  have n: "\<forall>e. Cancelled \<noteq> Raises e" by simp
  note a = stream_start_discipline [where pre = "[?call, ?result]" and ev = ?token
      and f = "stream_token_frame ''It is sunny''" and post = "[]"
      and user_input = "''weather in Paris''" and thread_id = "''t1''" and run_id = "''r1''"
      and ending = Exhausted and events = "[]"]
  note b = stream_start_discipline [where events = "[?call]" and ending = Cancelled
      and user_input = "''weather in Paris''" and thread_id = "''t1''" and run_id = "''r1''"
      and pre = "[]" and ev = NotATuple and post = "[]"]
  have "count_list (message_generator ''weather in Paris'' ''t1'' ''r1''
      ([?call, ?result] @ ?token # []) Exhausted) stream_start_frame = 1"
    using a q o c by blast
  moreover have "stream_start_frame \<notin> set (message_generator ''weather in Paris'' ''t1'' ''r1''
      [?call] Cancelled)
    \<and> stream_end_frame ''t1'' \<notin> set (message_generator ''weather in Paris'' ''t1'' ''r1''
      [?call] Cancelled)"
    using b q1 n by blast
  ultimately show ?thesis by simp
qed


section \<open>Cancellation of a single-shot invocation\<close>

text \<open>
  C9. When the agent's execution is cancelled, \<^verbatim>\<open>invoke\<close> does not propagate the
  cancellation: it returns a response whose content is the fixed text
  \<^verbatim>\<open>Generation was stopped.\<close>, with the run's thread and run identifiers.
\<close>

theorem invoke_cancelled:
  assumes "get_agent agent_id = Inr agent"
  shows "\<exists>response. invoke message requested_thread agent_id new_run new_thread AgentCancelled
            = Inr response
          \<and> resp_content response = ''Generation was stopped.''
          \<and> resp_run_id response = new_run
          \<and> resp_thread_id response = effective_thread requested_thread new_thread"
  using assms by (simp add: invoke_def)

theorem invoke_cancelled_witness:
  "get_agent ''Agent-AI'' = Inr ''Agent-AI''
   \<and> invoke ''2+2'' (Some ''t1'') ''Agent-AI'' ''r1'' ''t2'' AgentCancelled =
       Inr \<lparr>resp_content = ''Generation was stopped.'', resp_thread_id = ''t1'',
            resp_run_id = ''r1''\<rparr>"
proof -
  have g: "get_agent ''Agent-AI'' = Inr ''Agent-AI''" by (simp add: get_agent_def agents_def)
  from invoke_cancelled [OF g, of "''2+2''" "Some ''t1''" "''r1''" "''t2''"]
  show ?thesis using g by (auto simp: effective_thread_def)
qed

section \<open>State that outlives a run\<close>

lemmas invoke_defs = invoke_agent_def agent_run_def saved_messages_def invoke_def get_agent_def
  agents_def read_response_def extract_conversation_history_def effective_thread_def
  new_chat_message_def convert_message_content_to_string_def Let_def

lemma agent_loop_extends:
  "\<exists>produced. fst (agent_loop limit llm tools user_info today_date messages) = messages @ produced"
proof (induction limit arbitrary: messages)
  case 0
  then show ?case by simp
next
  case (Suc limit)
  let ?reply = "llm \<lparr>mi_user_info = user_info, mi_today_date = today_date,
      mi_conversation_history = extract_conversation_history messages 10, mi_messages = messages\<rparr>"
  show ?case
  proof (cases "snd ?reply = []")
    case True
    then show ?thesis by (simp add: Let_def)
  next
    case False
    let ?next = "(messages @ [AIMessage (fst ?reply) (snd ?reply)])
        @ map (\<lambda>tool_call. ToolMessage (tools tool_call) (tool_message_id tool_call)) (snd ?reply)"
    obtain produced where
      "fst (agent_loop limit llm tools user_info today_date ?next) = ?next @ produced"
      using Suc.IH by blast
    then show ?thesis using False by (simp add: Let_def)
  qed
qed

lemma agent_loop_first_reply:
  "\<exists>rest. fst (agent_loop (Suc limit) llm tools user_info today_date messages) =
     messages @ AIMessage
       (fst (llm \<lparr>mi_user_info = user_info, mi_today_date = today_date,
          mi_conversation_history = extract_conversation_history messages 10,
          mi_messages = messages\<rparr>))
       (snd (llm \<lparr>mi_user_info = user_info, mi_today_date = today_date,
          mi_conversation_history = extract_conversation_history messages 10,
          mi_messages = messages\<rparr>)) # rest"
proof -
  let ?reply = "llm \<lparr>mi_user_info = user_info, mi_today_date = today_date,
      mi_conversation_history = extract_conversation_history messages 10, mi_messages = messages\<rparr>"
  show ?thesis
  proof (cases "snd ?reply = []")
    case True
    then show ?thesis by (simp add: Let_def)
  next
    case False
    let ?next = "(messages @ [AIMessage (fst ?reply) (snd ?reply)])
        @ map (\<lambda>tool_call. ToolMessage (tools tool_call) (tool_message_id tool_call)) (snd ?reply)"
    obtain produced where
      "fst (agent_loop limit llm tools user_info today_date ?next) = ?next @ produced"
      using agent_loop_extends by blast
    then show ?thesis using False by (simp add: Let_def)
  qed
qed

lemma saved_after_run:
  "map_of (snd (invoke_agent llm tools limit checkpointer message requested_thread new_run
       new_thread user_info today_date)) (effective_thread requested_thread new_thread) =
     Some (fst (agent_loop limit llm tools user_info today_date
       (saved_messages checkpointer (effective_thread requested_thread new_thread)
          @ [HumanMessage (ContentStr message)])))"
  by (simp add: invoke_agent_def agent_run_def update_conv' split: prod.splits)

lemma other_thread_unchanged:
  "thread \<noteq> effective_thread requested_thread new_thread \<Longrightarrow>
   map_of (snd (invoke_agent llm tools limit checkpointer message requested_thread new_run
       new_thread user_info today_date)) thread = map_of checkpointer thread"
  by (simp add: invoke_agent_def agent_run_def update_conv' split: prod.splits)

lemma same_saved_same_response:
  "map_of checkpointer1 (effective_thread requested_thread new_thread) =
     map_of checkpointer2 (effective_thread requested_thread new_thread) \<Longrightarrow>
   fst (invoke_agent llm tools limit checkpointer1 message requested_thread new_run new_thread
          user_info today_date) =
   fst (invoke_agent llm tools limit checkpointer2 message requested_thread new_run new_thread
          user_info today_date)"
  by (simp add: invoke_agent_def agent_run_def saved_messages_def split: prod.splits)

lemma single_reply_response:
  assumes "snd (llm \<lparr>mi_user_info = user_info, mi_today_date = today_date,
          mi_conversation_history = extract_conversation_history
            (saved_messages checkpointer (effective_thread requested_thread new_thread)
               @ [HumanMessage (ContentStr message)]) 10,
          mi_messages = saved_messages checkpointer (effective_thread requested_thread new_thread)
               @ [HumanMessage (ContentStr message)]\<rparr>) = []"
  shows "fst (invoke_agent llm tools (Suc limit) checkpointer message requested_thread new_run
            new_thread user_info today_date) =
     Inr \<lparr>resp_content = convert_message_content_to_string
            (fst (llm \<lparr>mi_user_info = user_info, mi_today_date = today_date,
          mi_conversation_history = extract_conversation_history
            (saved_messages checkpointer (effective_thread requested_thread new_thread)
               @ [HumanMessage (ContentStr message)]) 10,
          mi_messages = saved_messages checkpointer (effective_thread requested_thread new_thread)
               @ [HumanMessage (ContentStr message)]\<rparr>)),
          resp_thread_id = effective_thread requested_thread new_thread, resp_run_id = new_run\<rparr>"
  using assms
  by (simp add: invoke_agent_def agent_run_def Let_def invoke_def get_agent_def agents_def
        read_response_def new_chat_message_def)

text \<open>
  C10. The claim: no state persists between runs, and the same request gives the same
  result whatever runs were completed before. With the agent's checkpointer the same
  request, sent twice under one thread identifier, is answered from one message the first
  time and from three the second time.
\<close>

theorem history_persists:
  "fst (invoke_agent counting_model weather_tools 8 [] ''hello'' (Some ''t1'') ''r1'' ''t9''
          ''op'' ''today'') =
     Inr \<lparr>resp_content = ''1'', resp_thread_id = ''t1'', resp_run_id = ''r1''\<rparr>
   \<and> fst (invoke_agent counting_model weather_tools 8
         (snd (invoke_agent counting_model weather_tools 8 [] ''hello'' (Some ''t1'') ''r1'' ''t9''
                 ''op'' ''today''))
         ''hello'' (Some ''t1'') ''r1'' ''t9'' ''op'' ''today'') =
     Inr \<lparr>resp_content = ''3'', resp_thread_id = ''t1'', resp_run_id = ''r1''\<rparr>"
  by (simp add: invoke_defs counting_model_def digits.simps eval_nat_numeral)

lemma run_restores_and_saves:
  "(\<exists>produced.
      map_of (snd (invoke_agent llm tools limit checkpointer message requested_thread new_run
                new_thread user_info today_date))
        (effective_thread requested_thread new_thread) =
      Some (saved_messages checkpointer (effective_thread requested_thread new_thread)
              @ [HumanMessage (ContentStr message)] @ produced))
   \<and> (\<exists>rest.
      map_of (snd (invoke_agent llm tools (Suc limit) checkpointer message requested_thread new_run
                new_thread user_info today_date))
        (effective_thread requested_thread new_thread) =
      Some ((saved_messages checkpointer (effective_thread requested_thread new_thread)
              @ [HumanMessage (ContentStr message)])
            @ AIMessage
                (fst (llm \<lparr>mi_user_info = user_info, mi_today_date = today_date,
                   mi_conversation_history = extract_conversation_history
                     (saved_messages checkpointer (effective_thread requested_thread new_thread)
                        @ [HumanMessage (ContentStr message)]) 10,
                   mi_messages =
                     saved_messages checkpointer (effective_thread requested_thread new_thread)
                        @ [HumanMessage (ContentStr message)]\<rparr>))
                (snd (llm \<lparr>mi_user_info = user_info, mi_today_date = today_date,
                   mi_conversation_history = extract_conversation_history
                     (saved_messages checkpointer (effective_thread requested_thread new_thread)
                        @ [HumanMessage (ContentStr message)]) 10,
                   mi_messages =
                     saved_messages checkpointer (effective_thread requested_thread new_thread)
                        @ [HumanMessage (ContentStr message)]\<rparr>))
              # rest))
   \<and> (snd (llm \<lparr>mi_user_info = user_info, mi_today_date = today_date,
              mi_conversation_history = extract_conversation_history
                (saved_messages checkpointer (effective_thread requested_thread new_thread)
                   @ [HumanMessage (ContentStr message)]) 10,
              mi_messages =
                saved_messages checkpointer (effective_thread requested_thread new_thread)
                   @ [HumanMessage (ContentStr message)]\<rparr>) = []
        \<longrightarrow> fst (invoke_agent llm tools (Suc limit) checkpointer message requested_thread new_run
                  new_thread user_info today_date) =
            Inr \<lparr>resp_content = convert_message_content_to_string
                    (fst (llm \<lparr>mi_user_info = user_info, mi_today_date = today_date,
                       mi_conversation_history = extract_conversation_history
                         (saved_messages checkpointer (effective_thread requested_thread new_thread)
                            @ [HumanMessage (ContentStr message)]) 10,
                       mi_messages =
                         saved_messages checkpointer (effective_thread requested_thread new_thread)
                            @ [HumanMessage (ContentStr message)]\<rparr>)),
                 resp_thread_id = effective_thread requested_thread new_thread,
                 resp_run_id = new_run\<rparr>)
   \<and> (map_of checkpointer (effective_thread requested_thread new_thread) =
        map_of other_checkpointer (effective_thread requested_thread new_thread)
        \<longrightarrow> fst (invoke_agent llm tools limit checkpointer message requested_thread new_run
                  new_thread user_info today_date) =
            fst (invoke_agent llm tools limit other_checkpointer message requested_thread new_run
                  new_thread user_info today_date))
   \<and> (effective_thread other_thread other_new \<noteq> effective_thread requested_thread new_thread
        \<longrightarrow> map_of (snd (invoke_agent llm tools limit checkpointer other_message other_thread
                      other_run other_new user_info today_date))
              (effective_thread requested_thread new_thread) =
            map_of checkpointer (effective_thread requested_thread new_thread))"
proof (intro conjI impI)
  show "\<exists>produced.
      map_of (snd (invoke_agent llm tools limit checkpointer message requested_thread new_run
                new_thread user_info today_date))
        (effective_thread requested_thread new_thread) =
      Some (saved_messages checkpointer (effective_thread requested_thread new_thread)
              @ [HumanMessage (ContentStr message)] @ produced)"
    using agent_loop_extends [of limit llm tools user_info today_date
        "saved_messages checkpointer (effective_thread requested_thread new_thread)
           @ [HumanMessage (ContentStr message)]"]
    by (simp add: saved_after_run)
next
  show "\<exists>rest.
      map_of (snd (invoke_agent llm tools (Suc limit) checkpointer message requested_thread new_run
                new_thread user_info today_date))
        (effective_thread requested_thread new_thread) =
      Some ((saved_messages checkpointer (effective_thread requested_thread new_thread)
              @ [HumanMessage (ContentStr message)])
            @ AIMessage
                (fst (llm \<lparr>mi_user_info = user_info, mi_today_date = today_date,
                   mi_conversation_history = extract_conversation_history
                     (saved_messages checkpointer (effective_thread requested_thread new_thread)
                        @ [HumanMessage (ContentStr message)]) 10,
                   mi_messages =
                     saved_messages checkpointer (effective_thread requested_thread new_thread)
                        @ [HumanMessage (ContentStr message)]\<rparr>))
                (snd (llm \<lparr>mi_user_info = user_info, mi_today_date = today_date,
                   mi_conversation_history = extract_conversation_history
                     (saved_messages checkpointer (effective_thread requested_thread new_thread)
                        @ [HumanMessage (ContentStr message)]) 10,
                   mi_messages =
                     saved_messages checkpointer (effective_thread requested_thread new_thread)
                        @ [HumanMessage (ContentStr message)]\<rparr>))
              # rest)"
    using agent_loop_first_reply [of limit llm tools user_info today_date
        "saved_messages checkpointer (effective_thread requested_thread new_thread)
           @ [HumanMessage (ContentStr message)]"]
    unfolding saved_after_run by blast
next
  assume "snd (llm \<lparr>mi_user_info = user_info, mi_today_date = today_date,
              mi_conversation_history = extract_conversation_history
                (saved_messages checkpointer (effective_thread requested_thread new_thread)
                   @ [HumanMessage (ContentStr message)]) 10,
              mi_messages =
                saved_messages checkpointer (effective_thread requested_thread new_thread)
                   @ [HumanMessage (ContentStr message)]\<rparr>) = []"
  then show "fst (invoke_agent llm tools (Suc limit) checkpointer message requested_thread new_run
                  new_thread user_info today_date) =
            Inr \<lparr>resp_content = convert_message_content_to_string
                    (fst (llm \<lparr>mi_user_info = user_info, mi_today_date = today_date,
                       mi_conversation_history = extract_conversation_history
                         (saved_messages checkpointer (effective_thread requested_thread new_thread)
                            @ [HumanMessage (ContentStr message)]) 10,
                       mi_messages =
                         saved_messages checkpointer (effective_thread requested_thread new_thread)
                            @ [HumanMessage (ContentStr message)]\<rparr>)),
                 resp_thread_id = effective_thread requested_thread new_thread,
                 resp_run_id = new_run\<rparr>"
    by (rule single_reply_response)
next
  assume "map_of checkpointer (effective_thread requested_thread new_thread) =
        map_of other_checkpointer (effective_thread requested_thread new_thread)"
  then show "fst (invoke_agent llm tools limit checkpointer message requested_thread new_run
                  new_thread user_info today_date) =
            fst (invoke_agent llm tools limit other_checkpointer message requested_thread new_run
                  new_thread user_info today_date)"
    by (rule same_saved_same_response)
next
  assume "effective_thread other_thread other_new \<noteq> effective_thread requested_thread new_thread"
  then show "map_of (snd (invoke_agent llm tools limit checkpointer other_message other_thread
                      other_run other_new user_info today_date))
              (effective_thread requested_thread new_thread) =
            map_of checkpointer (effective_thread requested_thread new_thread)"
    using other_thread_unchanged [of "effective_thread requested_thread new_thread"
        other_thread other_new] by simp
qed

text \<open>
  C10, as amended. The checkpointer persists the messages of each thread identifier
  between runs. Every run restores the messages saved under its thread identifier and
  saves them again followed by its input message and the messages that the run produced.
  When the recursion limit allows a turn, the first message produced is the reply of the
  model to the restored messages followed by the input, with the conversation history
  extracted from them; when this reply has no tool calls, its text is the content of the
  response. The response depends on the checkpointer only through the messages saved
  under the run's thread identifier, and a run under another thread identifier leaves the
  messages saved for a thread unchanged.
\<close>

theorem thread_history:
  "((map_of checkpointer (effective_thread requested_thread new_thread) = Some saved
      \<or> map_of checkpointer (effective_thread requested_thread new_thread) = None \<and> saved = [])
     \<longrightarrow>
       (\<exists>produced.
          map_of (snd (invoke_agent llm tools limit checkpointer message requested_thread new_run
                    new_thread user_info today_date))
            (effective_thread requested_thread new_thread) =
          Some (saved @ [HumanMessage (ContentStr message)] @ produced))
     \<and> (\<exists>rest.
          map_of (snd (invoke_agent llm tools (Suc limit) checkpointer message requested_thread
                    new_run new_thread user_info today_date))
            (effective_thread requested_thread new_thread) =
          Some ((saved @ [HumanMessage (ContentStr message)])
                @ AIMessage
                    (fst (llm \<lparr>mi_user_info = user_info, mi_today_date = today_date,
                       mi_conversation_history = extract_conversation_history
                         (saved @ [HumanMessage (ContentStr message)]) 10,
                       mi_messages = saved @ [HumanMessage (ContentStr message)]\<rparr>))
                    (snd (llm \<lparr>mi_user_info = user_info, mi_today_date = today_date,
                       mi_conversation_history = extract_conversation_history
                         (saved @ [HumanMessage (ContentStr message)]) 10,
                       mi_messages = saved @ [HumanMessage (ContentStr message)]\<rparr>))
                  # rest))
     \<and> (snd (llm \<lparr>mi_user_info = user_info, mi_today_date = today_date,
                mi_conversation_history = extract_conversation_history
                  (saved @ [HumanMessage (ContentStr message)]) 10,
                mi_messages = saved @ [HumanMessage (ContentStr message)]\<rparr>) = []
          \<longrightarrow> fst (invoke_agent llm tools (Suc limit) checkpointer message requested_thread
                    new_run new_thread user_info today_date) =
              Inr \<lparr>resp_content = convert_message_content_to_string
                      (fst (llm \<lparr>mi_user_info = user_info, mi_today_date = today_date,
                         mi_conversation_history = extract_conversation_history
                           (saved @ [HumanMessage (ContentStr message)]) 10,
                         mi_messages = saved @ [HumanMessage (ContentStr message)]\<rparr>)),
                   resp_thread_id = effective_thread requested_thread new_thread,
                   resp_run_id = new_run\<rparr>))
   \<and> (map_of checkpointer (effective_thread requested_thread new_thread) =
        map_of other_checkpointer (effective_thread requested_thread new_thread)
        \<longrightarrow> fst (invoke_agent llm tools limit checkpointer message requested_thread new_run
                  new_thread user_info today_date) =
            fst (invoke_agent llm tools limit other_checkpointer message requested_thread new_run
                  new_thread user_info today_date))
   \<and> (effective_thread other_thread other_new \<noteq> effective_thread requested_thread new_thread
        \<longrightarrow> map_of (snd (invoke_agent llm tools limit checkpointer other_message other_thread
                      other_run other_new user_info today_date))
              (effective_thread requested_thread new_thread) =
            map_of checkpointer (effective_thread requested_thread new_thread))"
proof -
  have s: "saved_messages checkpointer (effective_thread requested_thread new_thread) = saved"
    if "map_of checkpointer (effective_thread requested_thread new_thread) = Some saved
      \<or> map_of checkpointer (effective_thread requested_thread new_thread) = None \<and> saved = []"
    using that by (auto simp: saved_messages_def)
  note r = run_restores_and_saves [of llm tools limit checkpointer message requested_thread new_run
      new_thread user_info today_date other_checkpointer other_thread other_new other_message
      other_run]
  show ?thesis
  proof (intro conjI impI)
    assume h: "map_of checkpointer (effective_thread requested_thread new_thread) = Some saved
      \<or> map_of checkpointer (effective_thread requested_thread new_thread) = None \<and> saved = []"
    show "\<exists>produced.
          map_of (snd (invoke_agent llm tools limit checkpointer message requested_thread new_run
                    new_thread user_info today_date))
            (effective_thread requested_thread new_thread) =
          Some (saved @ [HumanMessage (ContentStr message)] @ produced)"
      using r unfolding s [OF h] by blast
    show "\<exists>rest.
          map_of (snd (invoke_agent llm tools (Suc limit) checkpointer message requested_thread
                    new_run new_thread user_info today_date))
            (effective_thread requested_thread new_thread) =
          Some ((saved @ [HumanMessage (ContentStr message)])
                @ AIMessage
                    (fst (llm \<lparr>mi_user_info = user_info, mi_today_date = today_date,
                       mi_conversation_history = extract_conversation_history
                         (saved @ [HumanMessage (ContentStr message)]) 10,
                       mi_messages = saved @ [HumanMessage (ContentStr message)]\<rparr>))
                    (snd (llm \<lparr>mi_user_info = user_info, mi_today_date = today_date,
                       mi_conversation_history = extract_conversation_history
                         (saved @ [HumanMessage (ContentStr message)]) 10,
                       mi_messages = saved @ [HumanMessage (ContentStr message)]\<rparr>))
                  # rest)"
      using r unfolding s [OF h] by blast
    show "fst (invoke_agent llm tools (Suc limit) checkpointer message requested_thread
                    new_run new_thread user_info today_date) =
              Inr \<lparr>resp_content = convert_message_content_to_string
                      (fst (llm \<lparr>mi_user_info = user_info, mi_today_date = today_date,
                         mi_conversation_history = extract_conversation_history
                           (saved @ [HumanMessage (ContentStr message)]) 10,
                         mi_messages = saved @ [HumanMessage (ContentStr message)]\<rparr>)),
                   resp_thread_id = effective_thread requested_thread new_thread,
                   resp_run_id = new_run\<rparr>"
      if "snd (llm \<lparr>mi_user_info = user_info, mi_today_date = today_date,
                mi_conversation_history = extract_conversation_history
                  (saved @ [HumanMessage (ContentStr message)]) 10,
                mi_messages = saved @ [HumanMessage (ContentStr message)]\<rparr>) = []"
      using r that unfolding s [OF h] by blast
  next
    assume "map_of checkpointer (effective_thread requested_thread new_thread) =
        map_of other_checkpointer (effective_thread requested_thread new_thread)"
    then show "fst (invoke_agent llm tools limit checkpointer message requested_thread new_run
                  new_thread user_info today_date) =
            fst (invoke_agent llm tools limit other_checkpointer message requested_thread new_run
                  new_thread user_info today_date)"
      using r by blast
  next
    assume "effective_thread other_thread other_new \<noteq> effective_thread requested_thread new_thread"
    then show "map_of (snd (invoke_agent llm tools limit checkpointer other_message other_thread
                      other_run other_new user_info today_date))
              (effective_thread requested_thread new_thread) =
            map_of checkpointer (effective_thread requested_thread new_thread)"
      using r by blast
  qed
qed


theorem thread_history_witness:
  "fst (invoke_agent counting_model weather_tools 8
          [(''t1'', [HumanMessage (ContentStr ''hello''), AIMessage (ContentStr ''1'') []])]
          ''hello'' (Some ''t1'') ''r2'' ''t9'' ''op'' ''today'') =
     Inr \<lparr>resp_content = ''3'', resp_thread_id = ''t1'', resp_run_id = ''r2''\<rparr>
   \<and> fst (invoke_agent counting_model weather_tools 8
          [(''t2'', [HumanMessage (ContentStr ''earlier'')]),
           (''t1'', [HumanMessage (ContentStr ''hello''), AIMessage (ContentStr ''1'') []])]
          ''hello'' (Some ''t1'') ''r2'' ''t9'' ''op'' ''today'') =
     Inr \<lparr>resp_content = ''3'', resp_thread_id = ''t1'', resp_run_id = ''r2''\<rparr>
   \<and> map_of (snd (invoke_agent counting_model weather_tools 8
          [(''t1'', [HumanMessage (ContentStr ''hello''), AIMessage (ContentStr ''1'') []])]
          ''weather in Paris'' (Some ''t2'') ''r3'' ''t9'' ''op'' ''today'')) ''t1'' =
     Some [HumanMessage (ContentStr ''hello''), AIMessage (ContentStr ''1'') []]
   \<and> map_of (snd (invoke_agent weather_model weather_tools 8
          [(''t1'', [HumanMessage (ContentStr ''hello''), AIMessage (ContentStr ''1'') []])]
          ''weather in Paris'' (Some ''t1'') ''r4'' ''t9'' ''op'' ''today'')) ''t1'' =
     Some [HumanMessage (ContentStr ''hello''), AIMessage (ContentStr ''1'') [],
           HumanMessage (ContentStr ''weather in Paris''),
           AIMessage (ContentStr [])
             [ToolCall (Some (JStr ''get_weather'')) (Some (JObj [(''city'', JStr ''Paris'')]))
                (Some (Some ''c1''))],
           ToolMessage (ContentStr ''sunny'') ''c1'',
           AIMessage (ContentStr ''sunny'') []]"
proof -
  let ?saved = "[HumanMessage (ContentStr ''hello''), AIMessage (ContentStr ''1'') []]"
  let ?cp1 = "[(''t1'', ?saved)]"
  let ?cp2 = "[(''t2'', [HumanMessage (ContentStr ''earlier'')]), (''t1'', ?saved)]"
  have t: "effective_thread (Some ''t1'') ''t9'' = ''t1''"
    and o: "effective_thread (Some ''t2'') ''t9'' = ''t2''"
    by (simp_all add: effective_thread_def)
  have s: "map_of ?cp1 (effective_thread (Some ''t1'') ''t9'') = Some ?saved" by (simp add: t)
  have same: "map_of ?cp1 (effective_thread (Some ''t1'') ''t9'')
      = map_of ?cp2 (effective_thread (Some ''t1'') ''t9'')"
    by (simp add: t)
  have other: "effective_thread (Some ''t2'') ''t9'' \<noteq> effective_thread (Some ''t1'') ''t9''"
    by (simp add: t o)
  have eight: "Suc 7 = 8" by simp
  note th = thread_history [where llm = counting_model and tools = weather_tools and limit = 7
      and saved = ?saved
      and checkpointer = ?cp1 and other_checkpointer = ?cp2 and message = "''hello''"
      and requested_thread = "Some ''t1''" and new_run = "''r2''" and new_thread = "''t9''"
      and user_info = "''op''" and today_date = "''today''"]
  note th8 = thread_history [where llm = counting_model and tools = weather_tools and limit = 8
      and saved = ?saved and checkpointer = ?cp1 and other_checkpointer = ?cp2 and message = "''hello''"
      and requested_thread = "Some ''t1''" and new_run = "''r2''" and new_thread = "''t9''"
      and user_info = "''op''" and today_date = "''today''"
      and other_thread = "Some ''t2''" and other_new = "''t9''"
      and other_message = "''weather in Paris''" and other_run = "''r3''"]
  have a: "fst (invoke_agent counting_model weather_tools 8 ?cp1
          ''hello'' (Some ''t1'') ''r2'' ''t9'' ''op'' ''today'') =
     Inr \<lparr>resp_content = ''3'', resp_thread_id = ''t1'', resp_run_id = ''r2''\<rparr>"
    using th s
    by (simp add: eight t counting_model_def convert_message_content_to_string_def digits.simps)
  have b: "fst (invoke_agent counting_model weather_tools 8 ?cp1
          ''hello'' (Some ''t1'') ''r2'' ''t9'' ''op'' ''today'') =
       fst (invoke_agent counting_model weather_tools 8 ?cp2
          ''hello'' (Some ''t1'') ''r2'' ''t9'' ''op'' ''today'')"
    using th8 same by blast
  have c: "map_of (snd (invoke_agent counting_model weather_tools 8 ?cp1
          ''weather in Paris'' (Some ''t2'') ''r3'' ''t9'' ''op'' ''today''))
        (effective_thread (Some ''t1'') ''t9'') = map_of ?cp1 (effective_thread (Some ''t1'') ''t9'')"
    using th8 other by blast
  have d: "map_of (snd (invoke_agent weather_model weather_tools 8 ?cp1
          ''weather in Paris'' (Some ''t1'') ''r4'' ''t9'' ''op'' ''today'')) ''t1'' =
     Some (?saved @ [HumanMessage (ContentStr ''weather in Paris''),
           AIMessage (ContentStr [])
             [ToolCall (Some (JStr ''get_weather'')) (Some (JObj [(''city'', JStr ''Paris'')]))
                (Some (Some ''c1''))],
           ToolMessage (ContentStr ''sunny'') ''c1'',
           AIMessage (ContentStr ''sunny'') []])"
    by (simp add: invoke_defs weather_model_def weather_tools_def tool_message_id_def
          eval_nat_numeral)
  show ?thesis using a b c d by (simp add: t)
qed


end
